theory Spec2Isabelle
  imports Complex_Main "HOL-Library.Product_Lexorder" "HOL-Library.Monad_Syntax"
begin

section \<open>Machine integers and vector accesses\<close>

text \<open>
  The program is C++ compiled for a 32-bit WebAssembly target: \<open>int\<close> is a 32-bit
  signed integer and \<open>size_t\<close> a 32-bit unsigned one. Values of type \<open>int\<close> are
  modelled as mathematical integers; an operation whose mathematical result leaves the
  range of \<open>int\<close> is undefined behaviour in C++ and makes the model return \<open>None\<close>.
  The conversion of an \<open>int\<close> to \<open>size_t\<close> is reduction modulo \<open>2 ^ 32\<close>.
  Every function below that can run into undefined behaviour (an access outside a
  vector, a signed overflow, an iterator range whose middle precedes its start) returns
  an \<open>option\<close>, and \<open>None\<close> stands for "the C++ run has no defined result".
\<close>

definition INT_MAX :: int where
  "INT_MAX = 2147483647"

definition INT_MIN :: int where
  "INT_MIN = - 2147483648"

definition in_int :: "int \<Rightarrow> bool" where
  "in_int n \<longleftrightarrow> INT_MIN \<le> n \<and> n \<le> INT_MAX"

definition to_size_t :: "int \<Rightarrow> nat" where
  "to_size_t n = nat (n mod 4294967296)"

text \<open>\<open>xs.size() - 1\<close> in \<open>size_t\<close> arithmetic: it wraps to \<open>2 ^ 32 - 1\<close> on an empty vector.\<close>

definition size_minus_1 :: "'a list \<Rightarrow> nat" where
  "size_minus_1 xs = (if xs = [] then 4294967295 else length xs - 1)"

text \<open>Integer division of C++ truncates towards zero.\<close>

definition int_div :: "int \<Rightarrow> int \<Rightarrow> int" where
  "int_div a b = sgn a * sgn b * (\<bar>a\<bar> div \<bar>b\<bar>)"

text \<open>\<open>std::vector::operator[]\<close> with a \<open>size_t\<close> index, for reading and for writing.\<close>

definition vec_at :: "'a list \<Rightarrow> nat \<Rightarrow> 'a option" where
  "vec_at xs n = (if n < length xs then Some (xs ! n) else None)"

definition store :: "'a list \<Rightarrow> nat \<Rightarrow> 'a \<Rightarrow> 'a list option" where
  "store xs n a = (if n < length xs then Some (xs[n := a]) else None)"

section \<open>Floating-point environment\<close>

text \<open>
  The type \<open>float\<close> is a type parameter \<open>'f\<close>: the operators \<open>+\<close>, \<open>-\<close>, \<open>*\<close>, \<open>/\<close>
  and the constants \<open>0\<close>, \<open>1\<close> are those of \<open>'f\<close>, with no algebraic law assumed, and
  the comparison is a linear order (floats without NaN; with a NaN among the distances the
  comparator of \<open>std::partial_sort\<close> is no strict weak ordering and the call is undefined).
  The library functions \<open>std::sqrt\<close> and \<open>std::acos\<close> and the value of the literal
  \<open>1.5707963f\<close> are the fields of an environment record. Every theorem that does not fix
  the environment therefore holds for every rounding behaviour of the arithmetic.
\<close>

record 'f float_env =
  sqrt_f :: "'f \<Rightarrow> 'f"
  acos_f :: "'f \<Rightarrow> 'f"
  HALF_PI :: 'f

text \<open>\<open>std::min(a, b)\<close> is \<open>(b < a) ? b : a\<close> and \<open>std::max(a, b)\<close> is \<open>(a < b) ? b : a\<close>.\<close>

definition std_min :: "'a::ord \<Rightarrow> 'a \<Rightarrow> 'a" where
  "std_min a b = (if b < a then b else a)"

definition std_max :: "'a::ord \<Rightarrow> 'a \<Rightarrow> 'a" where
  "std_max a b = (if a < b then b else a)"

section \<open>Vec3 and calculateAngle\<close>

datatype 'f Vec3 = Vec3 (x_of: 'f) (y_of: 'f) (z_of: 'f)

definition dot :: "'f::{plus,times} Vec3 \<Rightarrow> 'f Vec3 \<Rightarrow> 'f" where
  "dot a other = x_of a * x_of other + y_of a * y_of other + z_of a * z_of other"

definition lengthSquared :: "'f::{plus,times} Vec3 \<Rightarrow> 'f" where
  "lengthSquared a = x_of a * x_of a + y_of a * y_of a + z_of a * z_of a"

definition vec_minus :: "'f::minus Vec3 \<Rightarrow> 'f Vec3 \<Rightarrow> 'f Vec3" where
  "vec_minus a other = Vec3 (x_of a - x_of other) (y_of a - y_of other) (z_of a - z_of other)"

definition calculateAngle ::
  "'f::{linorder,plus,times,inverse,zero,one,uminus} float_env \<Rightarrow> 'f Vec3 \<Rightarrow> 'f Vec3 \<Rightarrow> 'f" where
  "calculateAngle E v1 v2 =
     (let d = dot v1 v2;
          len1Sq = lengthSquared v1;
          len2Sq = lengthSquared v2
      in if len1Sq = 0 \<or> len2Sq = 0 then 0
         else let cosTheta = d / sqrt_f E (len1Sq * len2Sq);
                  cosTheta = std_max (- 1) (std_min 1 cosTheta)
              in acos_f E cosTheta)"

section \<open>The full pass: calculateCellAcuteness\<close>

text \<open>
  \<open>Vec3 c(vertices[idx], vertices[idx + 1], vertices[idx + 2])\<close>: three reads of the
  flat vertex array at an index computed in \<open>int\<close>.
\<close>

definition readVec3 :: "'f list \<Rightarrow> int \<Rightarrow> 'f Vec3 option" where
  "readVec3 vertices idx =
     (if in_int idx \<and> in_int (idx + 2) then do {
        a \<leftarrow> vec_at vertices (to_size_t idx);
        b \<leftarrow> vec_at vertices (to_size_t (idx + 1));
        c \<leftarrow> vec_at vertices (to_size_t (idx + 2));
        Some (Vec3 a b c)
      } else None)"

text \<open>
  Lines 73 to 82: the loop over \<open>other\<close> that fills \<open>distances\<close> with the pairs
  (squared distance, \<open>other\<close>), skipping the center \<open>v\<close>.
\<close>

fun distancesLoop ::
  "'f::{plus,minus,times} list \<Rightarrow> int \<Rightarrow> 'f Vec3 \<Rightarrow> int \<Rightarrow> int list \<Rightarrow> ('f \<times> int) list option" where
  "distancesLoop vertices start center v [] = Some []"
| "distancesLoop vertices start center v (other # rest) =
     (if other = v then distancesLoop vertices start center v rest
      else do {
        otherVec \<leftarrow> readVec3 vertices (start + other * 3);
        distances \<leftarrow> distancesLoop vertices start center v rest;
        Some ((lengthSquared (vec_minus otherVec center), other) # distances)
      })"

text \<open>
  \<open>std::partial_sort(first, first + middle, last)\<close> under \<open>operator<\<close> of
  \<open>std::pair<float, int>\<close>, which is the lexicographic order. The C++ standard fixes the
  first \<open>middle\<close> elements of the result (the smallest ones, ascending) and leaves the order
  of the others unspecified; the caller reads the first \<open>middle\<close> elements only, and the
  model returns exactly those. A negative \<open>middle\<close> is an invalid iterator range.
\<close>

definition partial_sort :: "'a::linorder list \<Rightarrow> int \<Rightarrow> 'a list option" where
  "partial_sort xs middle =
     (if middle < 0 \<or> int (length xs) < middle then None
      else Some (take (nat middle) (sort xs)))"

text \<open>
  Lines 93 to 95 and 98 to 100: the displacement vector from the center to a selected
  neighbour. The source reads the neighbour again inside the loops over \<open>j\<close> and \<open>k\<close>; the
  reads are the ones already made by the distance loop, so the model makes them once per
  selected neighbour.
\<close>

fun neighborVecs ::
  "'f::minus list \<Rightarrow> int \<Rightarrow> 'f Vec3 \<Rightarrow> ('f \<times> int) list \<Rightarrow> 'f Vec3 list option" where
  "neighborVecs vertices start center [] = Some []"
| "neighborVecs vertices start center (p # rest) = do {
     v1 \<leftarrow> readVec3 vertices (start + snd p * 3);
     vecs \<leftarrow> neighborVecs vertices start center rest;
     Some (vec_minus v1 center # vecs)
   }"

text \<open>
  Lines 92 to 107: the loops \<open>j < numNeighbors\<close> and \<open>j < k < numNeighbors\<close> over the
  displacement vectors, counting the pairs with \<open>angle < HALF_PI\<close>.
\<close>

fun countAcute ::
  "'f::{linorder,plus,times,inverse,zero,one,uminus} float_env \<Rightarrow> 'f Vec3 list \<Rightarrow> int" where
  "countAcute E [] = 0"
| "countAcute E (vec1 # rest) =
     int (length (filter (\<lambda>vec2. calculateAngle E vec1 vec2 < HALF_PI E) rest))
       + countAcute E rest"

text \<open>
  Lines 73 to 89: the neighbour selection for the center \<open>v\<close>. The value returned is the
  part \<open>distances[0 .. numNeighbors)\<close> that the loops over \<open>j\<close> and \<open>k\<close> read, with
  \<open>numNeighbors = std::min(maxNeighbors, (int)distances.size())\<close>.
\<close>

definition nearestNeighbors ::
  "'f::{linorder,plus,minus,times} list \<Rightarrow> int \<Rightarrow> int \<Rightarrow> int \<Rightarrow> 'f Vec3 \<Rightarrow> int \<Rightarrow>
     ('f \<times> int) list option" where
  "nearestNeighbors vertices start cellSize maxNeighbors center v = do {
     distances \<leftarrow> distancesLoop vertices start center v [0..cellSize - 1];
     partial_sort distances (std_min maxNeighbors (int (length distances)))
   }"

text \<open>Lines 69 to 107: the body of the loop over the vertices \<open>v\<close> of one cell.\<close>

definition vertexAcute ::
  "'f::{linorder,plus,minus,times,inverse,zero,one,uminus} float_env \<Rightarrow> 'f list \<Rightarrow>
     int \<Rightarrow> int \<Rightarrow> int \<Rightarrow> int \<Rightarrow> int option" where
  "vertexAcute E vertices start cellSize maxNeighbors v = do {
     center \<leftarrow> readVec3 vertices (start + v * 3);
     nearest \<leftarrow> nearestNeighbors vertices start cellSize maxNeighbors center v;
     vecs \<leftarrow> neighborVecs vertices start center nearest;
     Some (countAcute E vecs)
   }"

fun vertexLoop ::
  "'f::{linorder,plus,minus,times,inverse,zero,one,uminus} float_env \<Rightarrow> 'f list \<Rightarrow>
     int \<Rightarrow> int \<Rightarrow> int \<Rightarrow> int list \<Rightarrow> int \<Rightarrow> int option" where
  "vertexLoop E vertices start cellSize maxNeighbors [] acuteAngles = Some acuteAngles"
| "vertexLoop E vertices start cellSize maxNeighbors (v # vs) acuteAngles = do {
     n \<leftarrow> vertexAcute E vertices start cellSize maxNeighbors v;
     vertexLoop E vertices start cellSize maxNeighbors vs (acuteAngles + n)
   }"

text \<open>
  Lines 56 to 110: the body of the loop over the cells, which yields the score pushed for
  cell \<open>i\<close>. The counter \<open>acuteAngles\<close> only grows, so it overflows during the run exactly
  when its final mathematical value exceeds \<open>INT_MAX\<close>.
\<close>

definition cellAcuteness ::
  "'f::{linorder,plus,minus,times,inverse,zero,one,uminus} float_env \<Rightarrow> 'f list \<Rightarrow>
     int list \<Rightarrow> int \<Rightarrow> nat \<Rightarrow> int option" where
  "cellAcuteness E vertices cellIndices maxNeighbors i = do {
     start \<leftarrow> vec_at cellIndices i;
     end \<leftarrow> vec_at cellIndices (i + 1);
     if \<not> in_int (end - start) then None
     else let cellSize = int_div (end - start) 3 in
       if cellSize < 4 then Some 0
       else do {
         acuteAngles \<leftarrow> vertexLoop E vertices start cellSize maxNeighbors [0..cellSize - 1] 0;
         if in_int acuteAngles then Some (int_div acuteAngles cellSize) else None
       }
   }"

fun cellsLoop ::
  "'f::{linorder,plus,minus,times,inverse,zero,one,uminus} float_env \<Rightarrow> 'f list \<Rightarrow>
     int list \<Rightarrow> int \<Rightarrow> nat list \<Rightarrow> int list \<Rightarrow> int list option" where
  "cellsLoop E vertices cellIndices maxNeighbors [] scores = Some scores"
| "cellsLoop E vertices cellIndices maxNeighbors (i # is) scores = do {
     s \<leftarrow> cellAcuteness E vertices cellIndices maxNeighbors i;
     cellsLoop E vertices cellIndices maxNeighbors is (scores @ [s])
   }"

definition calculateCellAcuteness ::
  "'f::{linorder,plus,minus,times,inverse,zero,one,uminus} float_env \<Rightarrow> 'f list \<Rightarrow>
     int list \<Rightarrow> int \<Rightarrow> int list option" where
  "calculateCellAcuteness E vertices cellIndices maxNeighbors =
     cellsLoop E vertices cellIndices maxNeighbors [0..<size_minus_1 cellIndices] []"

section \<open>The incremental pass: updateCellAcuteness\<close>

text \<open>
  Lines 125 to 142: \<open>updateCell\<close> is the body of the loop over \<open>changedCells\<close> (a
  \<open>continue\<close> leaves the table as it is). The comparison \<open>cellIdx >= cellIndices.size() - 1\<close> is made in
  \<open>size_t\<close>, after converting \<open>cellIdx\<close>. Between the test \<open>cellSize < 4\<close> and the write, the
  source has the initialisation \<open>int acuteAngles = 0\<close> and a comment in place of the
  per-cell computation, so the value written is \<open>0 / cellSize\<close>. The vertex array is a
  parameter that the function never reads. The score table is passed by reference; the
  model returns the table after the writes.
\<close>

definition updateCell :: "int list \<Rightarrow> int \<Rightarrow> int list \<Rightarrow> int list option" where
  "updateCell cellIndices cellIdx previousScores =
     (if size_minus_1 cellIndices \<le> to_size_t cellIdx then Some previousScores
      else do {
        start \<leftarrow> vec_at cellIndices (to_size_t cellIdx);
        end \<leftarrow> (if in_int (cellIdx + 1) then vec_at cellIndices (to_size_t (cellIdx + 1))
                else None);
        if \<not> in_int (end - start) then None
        else let cellSize = int_div (end - start) 3 in
          if cellSize < 4 then store previousScores (to_size_t cellIdx) 0
          else let acuteAngles = 0
               in store previousScores (to_size_t cellIdx) (int_div acuteAngles cellSize)
      })"

fun updateLoop :: "int list \<Rightarrow> int list \<Rightarrow> int list \<Rightarrow> int list option" where
  "updateLoop cellIndices [] previousScores = Some previousScores"
| "updateLoop cellIndices (cellIdx # rest) previousScores = do {
     scores \<leftarrow> updateCell cellIndices cellIdx previousScores;
     updateLoop cellIndices rest scores
   }"

definition updateCellAcuteness ::
  "'f list \<Rightarrow> int list \<Rightarrow> int list \<Rightarrow> int list \<Rightarrow> int list option" where
  "updateCellAcuteness vertices cellIndices changedCells previousScores =
     updateLoop cellIndices changedCells previousScores"

text \<open>
  Line 41 on its own: the quotient \<open>dot / std::sqrt(len1Sq * len2Sq)\<close> that \<open>calculateAngle\<close>
  computes when neither squared length is zero, before it is clamped.
\<close>

definition cosTheta ::
  "'f::{plus,times,inverse} float_env \<Rightarrow> 'f Vec3 \<Rightarrow> 'f Vec3 \<Rightarrow> 'f" where
  "cosTheta E v1 v2 = dot v1 v2 / sqrt_f E (lengthSquared v1 * lengthSquared v2)"

section \<open>Exact real arithmetic as one floating-point environment\<close>

text \<open>
  The environment in which every operation is exact: the reals, with the real square root
  and inverse cosine. Its threshold is the value of the single-precision number that the
  literal \<open>1.5707963f\<close> denotes, \<open>6588397 / 4194304\<close> (that is \<open>13176794 / 2 ^ 23\<close>, the bit
  pattern \<open>0x3FC90FDA\<close>). This environment is not the arithmetic of the program, which
  rounds every operation to single precision; it serves as an instance of the theorems that
  hold for every environment.
\<close>

definition real_env :: "real float_env" where
  "real_env = \<lparr> sqrt_f = sqrt, acos_f = arccos, HALF_PI = 6588397 / 4194304 \<rparr>"

definition unit_square :: "real list" where
  "unit_square = [0, 0, 0,  1, 0, 0,  0, 1, 0,  1, 1, 0]"

section \<open>Single-precision arithmetic\<close>

text \<open>
  The type \<open>float\<close> of the program is IEEE 754 binary32. \<open>round32\<close> rounds a real number to
  the nearest binary32 value, ties to the even significand: a value has 24 significant bits
  and an exponent of its last bit of at least \<open>- 149\<close> (the subnormal step \<open>2 ^ - 149\<close> below
  \<open>2 ^ - 126\<close>). The type \<open>f32\<close> carries the value of a float as a real number, and every
  arithmetic operation is the exact operation followed by \<open>round32\<close>, as IEEE 754 defines
  it. Not modelled: infinities and NaN, so an overflow or a division by zero, which produce
  them, has no counterpart here (\<open>round32\<close> does not bound the exponent from above, and a
  quotient by zero is the \<open>0\<close> of HOL). In \<open>f32_env\<close> the square root is the correctly rounded
  one of IEEE 754; \<open>std::acos\<close> is not fixed by IEEE 754 (it comes from the C library and
  may be off by a unit in the last place), and \<open>f32_env\<close> takes the correctly rounded inverse
  cosine for it; \<open>HALF_PI\<close> is the binary32 value nearest to the decimal \<open>1.5707963\<close>.
\<close>

definition rne :: "real \<Rightarrow> int" where
  "rne q = (let f = \<lfloor>q\<rfloor>; d = q - of_int f
            in if d < 1 / 2 then f else if 1 / 2 < d then f + 1
               else if even f then f else f + 1)"

definition round32 :: "real \<Rightarrow> real" where
  "round32 r =
     (if r = 0 then 0
      else let e = max \<lfloor>log 2 \<bar>r\<bar>\<rfloor> (- 126) - 23
           in of_int (rne (r / 2 powi e)) * 2 powi e)"

datatype f32 = F32 (value_of: real)

instantiation f32 :: "{zero,one,plus,minus,times,uminus,inverse,linorder}"
begin

definition zero_f32 :: f32 where
  "zero_f32 = F32 0"

definition one_f32 :: f32 where
  "one_f32 = F32 1"

definition plus_f32 :: "f32 \<Rightarrow> f32 \<Rightarrow> f32" where
  "plus_f32 a b = F32 (round32 (value_of a + value_of b))"

definition minus_f32 :: "f32 \<Rightarrow> f32 \<Rightarrow> f32" where
  "minus_f32 a b = F32 (round32 (value_of a - value_of b))"

definition times_f32 :: "f32 \<Rightarrow> f32 \<Rightarrow> f32" where
  "times_f32 a b = F32 (round32 (value_of a * value_of b))"

definition uminus_f32 :: "f32 \<Rightarrow> f32" where
  "uminus_f32 a = F32 (- value_of a)"

definition divide_f32 :: "f32 \<Rightarrow> f32 \<Rightarrow> f32" where
  "divide_f32 a b = F32 (round32 (value_of a / value_of b))"

definition inverse_f32 :: "f32 \<Rightarrow> f32" where
  "inverse_f32 a = F32 (round32 (1 / value_of a))"

definition less_eq_f32 :: "f32 \<Rightarrow> f32 \<Rightarrow> bool" where
  "less_eq_f32 a b \<longleftrightarrow> value_of a \<le> value_of b"

definition less_f32 :: "f32 \<Rightarrow> f32 \<Rightarrow> bool" where
  "less_f32 a b \<longleftrightarrow> value_of a < value_of b"

instance
proof
  fix a b c :: f32
  show "a < b \<longleftrightarrow> a \<le> b \<and> \<not> b \<le> a"
    by (auto simp: less_f32_def less_eq_f32_def)
  show "a \<le> a"
    by (simp add: less_eq_f32_def)
  show "a \<le> b \<Longrightarrow> b \<le> c \<Longrightarrow> a \<le> c"
    by (simp add: less_eq_f32_def)
  show "a \<le> b \<Longrightarrow> b \<le> a \<Longrightarrow> a = b"
    by (simp add: less_eq_f32_def f32.expand)
  show "a \<le> b \<or> b \<le> a"
    by (auto simp: less_eq_f32_def)
qed

end

definition f32_env :: "f32 float_env" where
  "f32_env = \<lparr> sqrt_f = (\<lambda>a. F32 (round32 (sqrt (value_of a)))),
               acos_f = (\<lambda>a. F32 (round32 (arccos (value_of a)))),
               HALF_PI = F32 (6588397 / 4194304) \<rparr>"

section \<open>The unit square for every floating-point environment\<close>

text \<open>
  Scenario A of the specification with the coordinates \<open>0\<close> and \<open>1\<close> of an arbitrary float
  type, and the facts about the floating-point operations that the run on this input uses:
  the differences, products and sums of the coordinates are exact, \<open>- 1 < 0 < 1 < 1 + 1\<close>,
  the square root of 1 is 1, \<open>0 / 1 = 0\<close>, the inverse cosine of 0 is not below the
  threshold, and the quotient \<open>1 / sqrt (1 + 1)\<close> lies strictly between \<open>- 1\<close> and \<open>1\<close> and its
  inverse cosine is below the threshold. All of them hold in IEEE 754 single precision.
\<close>

definition unit_square_cell :: "'f::{zero,one} list" where
  "unit_square_cell = [0, 0, 0,  1, 0, 0,  0, 1, 0,  1, 1, 0]"

definition unit_square_facts ::
  "'f::{linorder,plus,minus,times,inverse,zero,one,uminus} float_env \<Rightarrow> bool" where
  "unit_square_facts E \<longleftrightarrow>
     (0::'f) - 0 = 0 \<and> (1::'f) - 0 = 1 \<and> (0::'f) - 1 = - 1 \<and> (1::'f) - 1 = 0 \<and>
     (0::'f) * 0 = 0 \<and> (1::'f) * 1 = 1 \<and> (- 1) * (- 1) = (1::'f) \<and>
     (1::'f) * 0 = 0 \<and> (0::'f) * 1 = 0 \<and> (- 1) * (0::'f) = 0 \<and> (0::'f) * (- 1) = 0 \<and>
     (0::'f) + 0 = 0 \<and> (1::'f) + 0 = 1 \<and> (0::'f) + 1 = 1 \<and> ((1::'f) + 1) + 0 = 1 + 1 \<and>
     (1::'f) * (1 + 1) = 1 + 1 \<and>
     (- 1::'f) < 0 \<and> (0::'f) < 1 \<and> (1::'f) < 1 + 1 \<and>
     sqrt_f E 1 = 1 \<and> (0::'f) / 1 = 0 \<and>
     \<not> acos_f E 0 < HALF_PI E \<and>
     - 1 < 1 / sqrt_f E (1 + 1) \<and> 1 / sqrt_f E (1 + 1) < 1 \<and>
     acos_f E (1 / sqrt_f E (1 + 1)) < HALF_PI E"

text \<open>
  Vocabulary for the incremental pass: a changed-cell index is in range when it names a cell
  of the table, and it is written when the test at the head of the loop body does not skip it.
\<close>

definition in_range :: "int list \<Rightarrow> int \<Rightarrow> bool" where
  "in_range cellIndices c \<longleftrightarrow> 0 \<le> c \<and> c < int (length cellIndices) - 1"

definition written :: "int list \<Rightarrow> int \<Rightarrow> bool" where
  "written cellIndices c \<longleftrightarrow> \<not> size_minus_1 cellIndices \<le> to_size_t c"

section \<open>The scoring rule in the words of the specification\<close>

text \<open>
  The definitions of this section are not translations of code. They state, as pure
  functions, what the specification says the scoring engine computes, and the theorems
  below compare them with the functions translated from the source.

  \<open>vertexOf\<close> is vertex number \<open>n\<close> of the cell that starts at offset \<open>start\<close> of the flat
  array; \<open>distanceSquared\<close> is the squared Euclidean distance between two vertices of a
  cell; \<open>others\<close> lists the vertices of a cell except the center.
\<close>

definition vertexOf :: "'f list \<Rightarrow> int \<Rightarrow> int \<Rightarrow> 'f Vec3" where
  "vertexOf vertices start n =
     Vec3 (vertices ! to_size_t (start + n * 3))
          (vertices ! to_size_t (start + n * 3 + 1))
          (vertices ! to_size_t (start + n * 3 + 2))"

definition distanceSquared :: "'f::{plus,minus,times} list \<Rightarrow> int \<Rightarrow> int \<Rightarrow> int \<Rightarrow> 'f" where
  "distanceSquared vertices start v other =
     lengthSquared (vec_minus (vertexOf vertices start other) (vertexOf vertices start v))"

definition others :: "int \<Rightarrow> int \<Rightarrow> int list" where
  "others cellSize v = filter (\<lambda>other. other \<noteq> v) [0..cellSize - 1]"

text \<open>
  Section 4.1: the up to \<open>K\<close> nearest other vertices of the cell, nearest first, as pairs
  (squared distance, vertex number).
\<close>

definition nearest_spec ::
  "'f::{linorder,plus,minus,times} list \<Rightarrow> int \<Rightarrow> int \<Rightarrow> int \<Rightarrow> int \<Rightarrow> ('f \<times> int) list" where
  "nearest_spec vertices start cellSize K v =
     take (nat (min K (cellSize - 1)))
       (sort (map (\<lambda>other. (distanceSquared vertices start v other, other)) (others cellSize v)))"

text \<open>Every unordered pair of the elements of a list, once: positions \<open>j < k\<close>.\<close>

fun unordered_pairs :: "'a list \<Rightarrow> ('a \<times> 'a) list" where
  "unordered_pairs [] = []"
| "unordered_pairs (a # as) = map (Pair a) as @ unordered_pairs as"

text \<open>Section 4.2: the angle at \<open>center\<close> between the neighbours \<open>a\<close> and \<open>b\<close> is acute.\<close>

definition is_acute ::
  "'f::{linorder,plus,minus,times,inverse,zero,one,uminus} float_env \<Rightarrow>
     'f Vec3 \<Rightarrow> 'f Vec3 \<Rightarrow> 'f Vec3 \<Rightarrow> bool" where
  "is_acute E center a b \<longleftrightarrow>
     calculateAngle E (vec_minus a center) (vec_minus b center) < HALF_PI E"

text \<open>
  Section 4.3: the number of acute pairs among the selected neighbours of \<open>v\<close>, their total
  over the vertices of the cell, and the score.
\<close>

definition acute_pair_count ::
  "'f::{linorder,plus,minus,times,inverse,zero,one,uminus} float_env \<Rightarrow> 'f list \<Rightarrow>
     int \<Rightarrow> int \<Rightarrow> int \<Rightarrow> int \<Rightarrow> int" where
  "acute_pair_count E vertices start cellSize K v =
     int (length (filter
       (\<lambda>(p, q). is_acute E (vertexOf vertices start v)
                    (vertexOf vertices start (snd p)) (vertexOf vertices start (snd q)))
       (unordered_pairs (nearest_spec vertices start cellSize K v))))"

definition total_acute ::
  "'f::{linorder,plus,minus,times,inverse,zero,one,uminus} float_env \<Rightarrow> 'f list \<Rightarrow>
     int \<Rightarrow> int \<Rightarrow> int \<Rightarrow> int" where
  "total_acute E vertices start cellSize K =
     sum_list (map (acute_pair_count E vertices start cellSize K) [0..cellSize - 1])"

definition score_spec ::
  "'f::{linorder,plus,minus,times,inverse,zero,one,uminus} float_env \<Rightarrow> 'f list \<Rightarrow>
     int \<Rightarrow> int \<Rightarrow> int \<Rightarrow> int" where
  "score_spec E vertices start cellSize K = total_acute E vertices start cellSize K div cellSize"

section \<open>Well-formed inputs\<close>

text \<open>
  A cell is in bounds when the reads of its vertices stay inside the vertex array and the
  index arithmetic stays inside \<open>int\<close>. A cell table is well formed (section 3 of the
  specification) when it has at least one entry and its offsets are nondecreasing, start at
  a non-negative offset and end inside the vertex array. The alignment of the offsets to
  multiples of 3 is not needed by any theorem below and is left out.
\<close>

definition cell_in_bounds :: "'f list \<Rightarrow> int \<Rightarrow> int \<Rightarrow> bool" where
  "cell_in_bounds vertices start cellSize \<longleftrightarrow>
     0 \<le> start \<and> start + cellSize * 3 \<le> int (length vertices) \<and> start + cellSize * 3 - 1 \<le> INT_MAX"

definition wellformed :: "'f list \<Rightarrow> int list \<Rightarrow> bool" where
  "wellformed vertices cellIndices \<longleftrightarrow>
     cellIndices \<noteq> [] \<and> sorted cellIndices \<and> 0 \<le> hd cellIndices \<and>
     last cellIndices \<le> int (length vertices) \<and> last cellIndices \<le> INT_MAX"

section \<open>Conversions and the range test of the incremental pass\<close>

lemma to_size_t_nonneg: "0 \<le> n \<Longrightarrow> n \<le> INT_MAX \<Longrightarrow> to_size_t n = nat n"
  by (simp add: to_size_t_def INT_MAX_def)

lemma to_size_t_negative:
  assumes "INT_MIN \<le> n" "n < 0"
  shows "to_size_t n = nat (n + 4294967296)"
proof -
  have "n mod 4294967296 = (n + 4294967296) mod 4294967296"
    by simp
  also have "\<dots> = n + 4294967296"
    using assms by (intro mod_pos_pos_trivial) (auto simp: INT_MIN_def)
  finally show ?thesis
    by (simp add: to_size_t_def)
qed

lemma size_minus_1_nonempty: "xs \<noteq> [] \<Longrightarrow> size_minus_1 xs = length xs - 1"
  by (simp add: size_minus_1_def)

lemma skip_negative:
  assumes "cellIndices \<noteq> []" "length cellIndices \<le> 2147483648"
      and "INT_MIN \<le> cellIdx" "cellIdx < 0"
  shows "size_minus_1 cellIndices \<le> to_size_t cellIdx"
  using assms by (simp add: size_minus_1_nonempty to_size_t_negative INT_MIN_def)

lemma skip_too_large:
  assumes "cellIndices \<noteq> []" "cellIdx \<le> INT_MAX" "int (length cellIndices) - 1 \<le> cellIdx"
  shows "size_minus_1 cellIndices \<le> to_size_t cellIdx"
proof -
  have "0 \<le> cellIdx"
    using assms by (cases cellIndices) auto
  then show ?thesis
    using assms by (simp add: size_minus_1_nonempty to_size_t_nonneg)
qed

lemma written_in_range:
  assumes "i + 1 < length cellIndices" "length cellIndices \<le> 2147483648"
  shows "written cellIndices (int i)" and "to_size_t (int i) = i"
  using assms by (auto simp: written_def size_minus_1_def to_size_t_def)

lemma updateCell_skip:
  assumes "cellIndices \<noteq> []" "length cellIndices \<le> 2147483648"
      and "in_int c" "\<not> in_range cellIndices c"
  shows "updateCell cellIndices c previousScores = Some previousScores"
proof -
  have "size_minus_1 cellIndices \<le> to_size_t c"
    using skip_negative[OF assms(1,2), of c] skip_too_large[OF assms(1), of c] assms(3,4)
    by (auto simp: in_range_def in_int_def)
  then show ?thesis
    by (simp add: updateCell_def)
qed

lemma updateLoop_filter:
  assumes "cellIndices \<noteq> []" "length cellIndices \<le> 2147483648"
      and "\<forall>c\<in>set changedCells. in_int c"
  shows "updateLoop cellIndices changedCells previousScores =
         updateLoop cellIndices (filter (in_range cellIndices) changedCells) previousScores"
  using assms(3)
proof (induction changedCells arbitrary: previousScores)
  case Nil
  then show ?case by simp
next
  case (Cons c cs)
  then show ?case
    using updateCell_skip[OF assms(1,2), of c]
    by (cases "updateCell cellIndices c previousScores") auto
qed

section \<open>What the two loops compute\<close>

lemma cellsLoop_Some:
  "cellsLoop E vertices cellIndices K idxs acc = Some scores \<longleftrightarrow>
     (\<forall>i\<in>set idxs. cellAcuteness E vertices cellIndices K i \<noteq> None) \<and>
     scores = acc @ map (\<lambda>i. the (cellAcuteness E vertices cellIndices K i)) idxs"
proof (induction idxs arbitrary: acc)
  case Nil
  then show ?case by auto
next
  case (Cons i idxs)
  then show ?case
    by (cases "cellAcuteness E vertices cellIndices K i") auto
qed

lemma calculateCellAcuteness_Some:
  assumes "calculateCellAcuteness E vertices cellIndices K = Some scores"
  shows "length scores = size_minus_1 cellIndices"
    and "i < size_minus_1 cellIndices \<Longrightarrow>
           cellAcuteness E vertices cellIndices K i = Some (scores ! i)"
  using assms by (auto simp: calculateCellAcuteness_def cellsLoop_Some)

lemma calculateCellAcuteness_nonempty:
  assumes "calculateCellAcuteness E vertices cellIndices K = Some scores"
  shows "cellIndices \<noteq> []"
proof
  assume empty: "cellIndices = []"
  then have "cellAcuteness E vertices cellIndices K 0 = Some (scores ! 0)"
    using calculateCellAcuteness_Some(2)[OF assms, of 0] by (simp add: size_minus_1_def)
  then show False
    using empty by (simp add: cellAcuteness_def vec_at_def)
qed

lemma cellAcuteness_degenerate:
  assumes "i + 1 < length cellIndices"
      and "in_int (cellIndices ! (i + 1) - cellIndices ! i)"
      and "int_div (cellIndices ! (i + 1) - cellIndices ! i) 3 < 4"
  shows "cellAcuteness E vertices cellIndices K i = Some 0"
  using assms by (simp add: cellAcuteness_def vec_at_def)

lemma int_div_zero [simp]: "int_div 0 b = 0"
  by (simp add: int_div_def)

lemma store_Some: "store xs n a = Some ys \<longleftrightarrow> n < length xs \<and> ys = xs[n := a]"
  by (auto simp: store_def)

lemma updateCell_Some:
  assumes "updateCell cellIndices c ps = Some scores"
  shows "scores = (if written cellIndices c then ps[to_size_t c := 0] else ps)"
    and "written cellIndices c \<Longrightarrow> to_size_t c < length ps"
  using assms
  by (auto simp: updateCell_def written_def store_Some Let_def
      split: if_splits Option.bind_splits)

lemma updateLoop_Some:
  assumes "updateLoop cellIndices cs ps = Some scores"
  shows "length scores = length ps \<and>
         (\<forall>j<length ps. scores ! j =
            (if \<exists>c\<in>set cs. written cellIndices c \<and> to_size_t c = j then 0 else ps ! j))"
  using assms
proof (induction cs arbitrary: ps)
  case Nil
  then show ?case by simp
next
  case (Cons c cs)
  from Cons.prems obtain ps' where c: "updateCell cellIndices c ps = Some ps'"
    and rest: "updateLoop cellIndices cs ps' = Some scores"
    by (auto split: Option.bind_splits)
  note ih = Cons.IH[OF rest]
  note u = updateCell_Some[OF c]
  have len: "length ps' = length ps"
    using u(1) by (simp split: if_splits)
  show ?case
  proof (intro conjI allI impI)
    show "length scores = length ps"
      using ih len by simp
  next
    fix j assume j: "j < length ps"
    then have "scores ! j =
        (if \<exists>c\<in>set cs. written cellIndices c \<and> to_size_t c = j then 0 else ps' ! j)"
      using ih len by simp
    moreover have "ps' ! j = (if written cellIndices c \<and> to_size_t c = j then 0 else ps ! j)"
      using u(1) j by (auto simp: nth_list_update)
    ultimately show "scores ! j =
        (if \<exists>c\<in>set (c # cs). written cellIndices c \<and> to_size_t c = j then 0 else ps ! j)"
      by auto
  qed
qed

lemma updateLoop_writes_in_bounds:
  assumes "updateLoop cellIndices cs ps = Some scores" "c \<in> set cs" "written cellIndices c"
  shows "to_size_t c < length ps"
  using assms
proof (induction cs arbitrary: ps)
  case Nil
  then show ?case by simp
next
  case (Cons d cs)
  from Cons.prems(1) obtain ps' where d: "updateCell cellIndices d ps = Some ps'"
    and rest: "updateLoop cellIndices cs ps' = Some scores"
    by (auto split: Option.bind_splits)
  have len: "length ps' = length ps"
    using updateCell_Some(1)[OF d] by (simp split: if_splits)
  show ?case
  proof (cases "c = d")
    case True
    then show ?thesis
      using updateCell_Some(2)[OF d] Cons.prems(3) by simp
  next
    case False
    then have "c \<in> set cs"
      using Cons.prems(2) by simp
    then show ?thesis
      using Cons.IH[OF rest _ Cons.prems(3)] len by simp
  qed
qed

section \<open>A defined run computes the pure functions\<close>

text \<open>
  Whenever a function of the full pass returns \<open>Some\<close>, its value is the one of the pure
  function of the specification section.
\<close>

lemma readVec3_Some:
  assumes "readVec3 vertices (start + n * 3) = Some w"
  shows "w = vertexOf vertices start n"
  using assms
  by (auto simp: readVec3_def vec_at_def vertexOf_def split: if_splits Option.bind_splits)

lemma distancesLoop_Some:
  assumes "distancesLoop vertices start center v os = Some ds"
  shows "ds = map (\<lambda>other. (lengthSquared (vec_minus (vertexOf vertices start other) center), other))
               (filter (\<lambda>other. other \<noteq> v) os)"
  using assms
proof (induction os arbitrary: ds)
  case Nil
  then show ?case by simp
next
  case (Cons other rest)
  show ?case
  proof (cases "other = v")
    case True
    then show ?thesis using Cons by simp
  next
    case False
    then obtain w ds' where w: "readVec3 vertices (start + other * 3) = Some w"
      and ds': "distancesLoop vertices start center v rest = Some ds'"
      and ds: "ds = (lengthSquared (vec_minus w center), other) # ds'"
      using Cons.prems by (auto split: Option.bind_splits)
    show ?thesis
      using False Cons.IH[OF ds'] readVec3_Some[OF w] ds by simp
  qed
qed

lemma partial_sort_Some:
  assumes "partial_sort xs middle = Some ys"
  shows "0 \<le> middle" and "ys = take (nat middle) (sort xs)"
  using assms by (auto simp: partial_sort_def split: if_splits)

lemma length_others:
  assumes "0 \<le> v" "v < cellSize"
  shows "length (others cellSize v) = nat (cellSize - 1)"
proof -
  have "set (others cellSize v) = {0..cellSize - 1} - {v}"
    by (auto simp: others_def)
  moreover have "distinct (others cellSize v)"
    by (simp add: others_def)
  ultimately have "length (others cellSize v) = card ({0..cellSize - 1} - {v})"
    using distinct_card by metis
  also have "\<dots> = card {0..cellSize - 1} - 1"
    using assms by (subst card_Diff_singleton) auto
  also have "\<dots> = nat (cellSize - 1)"
    using assms by simp
  finally show ?thesis .
qed

lemma std_min_int: "std_min (a::int) b = min a b"
  by (simp add: std_min_def min_def)

lemma nearestNeighbors_Some:
  assumes "nearestNeighbors vertices start cellSize K (vertexOf vertices start v) v = Some nearest"
      and "0 \<le> v" "v < cellSize"
  shows "nearest = nearest_spec vertices start cellSize K v" and "0 \<le> K"
proof -
  obtain ds where ds: "distancesLoop vertices start (vertexOf vertices start v) v [0..cellSize - 1] = Some ds"
    and ps: "partial_sort ds (std_min K (int (length ds))) = Some nearest"
    using assms(1) by (auto simp: nearestNeighbors_def split: Option.bind_splits)
  have ds_eq: "ds = map (\<lambda>other. (distanceSquared vertices start v other, other)) (others cellSize v)"
    using distancesLoop_Some[OF ds] by (simp add: distanceSquared_def others_def)
  then have len: "int (length ds) = cellSize - 1"
    using length_others[OF assms(2,3)] assms by simp
  from partial_sort_Some[OF ps] len
  have m: "0 \<le> min K (cellSize - 1)" and n: "nearest = take (nat (min K (cellSize - 1))) (sort ds)"
    by (simp_all add: std_min_int)
  show "nearest = nearest_spec vertices start cellSize K v"
    using n ds_eq by (simp add: nearest_spec_def)
  show "0 \<le> K" using m by simp
qed

lemma neighborVecs_Some:
  assumes "neighborVecs vertices start center ps = Some vecs"
  shows "vecs = map (\<lambda>p. vec_minus (vertexOf vertices start (snd p)) center) ps"
  using assms
proof (induction ps arbitrary: vecs)
  case Nil
  then show ?case by simp
next
  case (Cons p ps)
  then obtain w vecs' where w: "readVec3 vertices (start + snd p * 3) = Some w"
    and r: "neighborVecs vertices start center ps = Some vecs'"
    and v: "vecs = vec_minus w center # vecs'"
    by (auto split: Option.bind_splits)
  show ?case using Cons.IH[OF r] readVec3_Some[OF w] v by simp
qed

lemma unordered_pairs_map:
  "unordered_pairs (map f xs) = map (\<lambda>(a, b). (f a, f b)) (unordered_pairs xs)"
  by (induction xs) auto

lemma countAcute_pairs:
  "countAcute E vecs =
     int (length (filter (\<lambda>(a, b). calculateAngle E a b < HALF_PI E) (unordered_pairs vecs)))"
proof (induction vecs)
  case Nil
  then show ?case by simp
next
  case (Cons a vecs)
  have "filter (\<lambda>(a, b). calculateAngle E a b < HALF_PI E) (map (Pair a) vecs)
        = map (Pair a) (filter (\<lambda>b. calculateAngle E a b < HALF_PI E) vecs)"
    by (induction vecs) auto
  then show ?case using Cons by simp
qed

lemma vertexAcute_Some:
  assumes "vertexAcute E vertices start cellSize K v = Some c"
      and "0 \<le> v" "v < cellSize"
  shows "c = acute_pair_count E vertices start cellSize K v" and "0 \<le> K"
proof -
  obtain center nearest vecs where c: "readVec3 vertices (start + v * 3) = Some center"
    and n: "nearestNeighbors vertices start cellSize K center v = Some nearest"
    and vs: "neighborVecs vertices start center nearest = Some vecs"
    and cnt: "c = countAcute E vecs"
    using assms(1) by (auto simp: vertexAcute_def split: Option.bind_splits)
  have center: "center = vertexOf vertices start v"
    using readVec3_Some[OF c] .
  note sel = nearestNeighbors_Some[OF n[unfolded center] assms(2,3)]
  show "0 \<le> K" using sel(2) .
  have "vecs = map (\<lambda>p. vec_minus (vertexOf vertices start (snd p)) center)
                 (nearest_spec vertices start cellSize K v)"
    using neighborVecs_Some[OF vs] sel(1) by simp
  then show "c = acute_pair_count E vertices start cellSize K v"
    unfolding cnt countAcute_pairs acute_pair_count_def
    by (simp add: unordered_pairs_map filter_map o_def case_prod_unfold is_acute_def center)
qed

lemma vertexLoop_Some:
  assumes "vertexLoop E vertices start cellSize K vl acc = Some t"
      and "\<forall>v\<in>set vl. 0 \<le> v \<and> v < cellSize"
  shows "t = acc + sum_list (map (acute_pair_count E vertices start cellSize K) vl)"
  using assms
proof (induction vl arbitrary: acc)
  case Nil
  then show ?case by simp
next
  case (Cons v vl)
  then obtain c where c: "vertexAcute E vertices start cellSize K v = Some c"
    and r: "vertexLoop E vertices start cellSize K vl (acc + c) = Some t"
    by (auto split: Option.bind_splits)
  have "c = acute_pair_count E vertices start cellSize K v"
    using vertexAcute_Some(1)[OF c] Cons.prems(2) by simp
  moreover have "t = acc + c + sum_list (map (acute_pair_count E vertices start cellSize K) vl)"
    using Cons.IH[OF r] Cons.prems(2) by simp
  ultimately show ?case by simp
qed

lemma vertexLoop_Some_K:
  assumes "vertexLoop E vertices start cellSize K (v # vl) acc = Some t"
      and "0 \<le> v" "v < cellSize"
  shows "0 \<le> K"
proof -
  obtain c where c: "vertexAcute E vertices start cellSize K v = Some c"
    using assms(1) by (auto split: Option.bind_splits)
  show ?thesis using vertexAcute_Some(2)[OF c assms(2,3)] .
qed

lemma int_div_nonneg: "0 \<le> a \<Longrightarrow> 0 < b \<Longrightarrow> int_div a b = a div b"
  by (simp add: int_div_def sgn_if)

lemma acute_pair_count_nonneg: "0 \<le> acute_pair_count E vertices start cellSize K v"
  by (simp add: acute_pair_count_def)

lemma total_acute_nonneg: "0 \<le> total_acute E vertices start cellSize K"
  unfolding total_acute_def by (rule sum_list_nonneg) (auto simp: acute_pair_count_nonneg)

lemma cellAcuteness_Some:
  assumes "cellAcuteness E vertices cellIndices K i = Some s"
      and "4 \<le> int_div (cellIndices ! (i + 1) - cellIndices ! i) 3"
  shows "s = score_spec E vertices (cellIndices ! i)
               (int_div (cellIndices ! (i + 1) - cellIndices ! i) 3) K"
    and "0 \<le> K"
    and "in_int (total_acute E vertices (cellIndices ! i)
               (int_div (cellIndices ! (i + 1) - cellIndices ! i) 3) K)"
proof -
  let ?n = "int_div (cellIndices ! (i + 1) - cellIndices ! i) 3"
  obtain t where t: "vertexLoop E vertices (cellIndices ! i) ?n K [0..?n - 1] 0 = Some t"
    and int: "in_int t" and s: "s = int_div t ?n"
    using assms
    by (auto simp: cellAcuteness_def vec_at_def Let_def split: Option.bind_splits if_splits)
  have rng: "\<forall>v\<in>set [0..?n - 1]. 0 \<le> v \<and> v < ?n"
    by auto
  have ne: "[0..?n - 1] = 0 # [1..?n - 1]"
    using assms(2) by (simp add: upto_rec1)
  have tt: "t = total_acute E vertices (cellIndices ! i) ?n K"
    using vertexLoop_Some[OF t rng] by (simp add: total_acute_def)
  show "0 \<le> K" using vertexLoop_Some_K[OF t[unfolded ne]] assms(2) by simp
  show "in_int (total_acute E vertices (cellIndices ! i) ?n K)" using int tt by simp
  show "s = score_spec E vertices (cellIndices ! i) ?n K"
    using s tt assms(2) total_acute_nonneg[of E vertices "cellIndices ! i" ?n K]
    by (simp add: score_spec_def int_div_nonneg)
qed

section \<open>The empty cell table\<close>

text \<open>
  A cell table has at least one entry. On an empty vector \<open>cellIndices.size() - 1\<close> wraps to
  \<open>2 ^ 32 - 1\<close>: the full pass reads \<open>cellIndices[0]\<close>, and the incremental pass skips the
  index \<open>- 1\<close> only; both runs are undefined otherwise.
\<close>

lemma empty_table_full_pass: "calculateCellAcuteness E vertices [] K = None"
proof (cases "calculateCellAcuteness E vertices [] K")
  case None
  then show ?thesis .
next
  case (Some scores)
  then show ?thesis
    using calculateCellAcuteness_nonempty by blast
qed

lemma empty_table_update: "updateCellAcuteness vertices [] [- 2] previousScores = None"
  by (simp add: updateCellAcuteness_def updateCell_def size_minus_1_def to_size_t_def vec_at_def)

section \<open>Degenerate cells\<close>

text \<open>
  Claim C3. A cell whose computed size \<open>(end - start) / 3\<close> is below 4 gets the score 0:
  the loop body of the full pass yields 0 for every vertex array (the empty one included,
  on which any read would be out of bounds) and every floating-point environment, so no
  neighbour search or angle computation takes place; the full pass has 0 at that index of
  its result; and the table returned by the incremental pass has 0 at that index when the
  index is listed as changed.
\<close>

theorem degenerate_cell_scores_zero:
  assumes "i + 1 < length cellIndices"
      and "length cellIndices \<le> 2147483648"
      and "in_int (cellIndices ! (i + 1) - cellIndices ! i)"
      and "int_div (cellIndices ! (i + 1) - cellIndices ! i) 3 < 4"
  shows "cellAcuteness E vertices cellIndices maxNeighbors i = Some 0 \<and>
         (\<forall>scores. calculateCellAcuteness E vertices cellIndices maxNeighbors = Some scores \<longrightarrow>
            i < length scores \<and> scores ! i = 0) \<and>
         (\<forall>scores. updateCellAcuteness vertices cellIndices changedCells previousScores = Some scores
              \<and> int i \<in> set changedCells \<longrightarrow>
            i < length scores \<and> scores ! i = 0)"
proof (intro conjI allI impI)
  show deg: "cellAcuteness E vertices cellIndices maxNeighbors i = Some 0"
    using assms(1,3,4) by (rule cellAcuteness_degenerate)
  have "cellIndices \<noteq> []"
    using assms(1) by auto
  then have bound: "i < size_minus_1 cellIndices"
    using assms(1) by (simp add: size_minus_1_def)
  {
    fix scores
    assume full: "calculateCellAcuteness E vertices cellIndices maxNeighbors = Some scores"
    show "i < length scores"
      using calculateCellAcuteness_Some(1)[OF full] bound by simp
    show "scores ! i = 0"
      using calculateCellAcuteness_Some(2)[OF full bound] deg by simp
  }
  {
    fix scores
    assume "updateCellAcuteness vertices cellIndices changedCells previousScores = Some scores
              \<and> int i \<in> set changedCells"
    then have upd: "updateLoop cellIndices changedCells previousScores = Some scores"
      and mem: "int i \<in> set changedCells"
      by (simp_all add: updateCellAcuteness_def)
    note w = written_in_range[OF assms(1,2)]
    have lt: "i < length previousScores"
      using updateLoop_writes_in_bounds[OF upd mem w(1)] w(2) by simp
    note ch = updateLoop_Some[OF upd]
    show "i < length scores"
      using ch lt by simp
    have "\<exists>c\<in>set changedCells. written cellIndices c \<and> to_size_t c = i"
      using mem w by blast
    then show "scores ! i = 0"
      using ch lt by simp
  }
qed

text \<open>
  A cell of three vertices over an empty vertex array: both passes return the score 0.
\<close>

theorem degenerate_cell_scores_zero_witness:
  "0 + 1 < length [0, 9 :: int] \<and> length [0, 9 :: int] \<le> 2147483648 \<and>
   in_int ([0, 9] ! (0 + 1) - [0, 9] ! 0) \<and> int_div ([0, 9] ! (0 + 1) - [0, 9] ! 0) 3 < 4 \<and>
   cellAcuteness real_env [] [0, 9] 6 0 = Some 0 \<and>
   calculateCellAcuteness real_env [] [0, 9] 6 = Some [0] \<and>
   updateCellAcuteness ([] :: real list) [0, 9] [0] [7] = Some [0]"
proof -
  have h1: "0 + 1 < length [0, 9 :: int]" and h2: "length [0, 9 :: int] \<le> 2147483648"
    by simp_all
  have h3: "in_int ([0, 9] ! (0 + 1) - [0, 9] ! 0)"
    by (simp add: in_int_def INT_MIN_def INT_MAX_def)
  have h4: "int_div ([0, 9] ! (0 + 1) - [0, 9] ! 0) 3 < 4"
    by (simp add: int_div_def)
  have cell: "cellAcuteness real_env [] [0, 9] 6 0 = Some 0"
    using degenerate_cell_scores_zero[OF h1 h2 h3 h4] by blast
  have full: "calculateCellAcuteness real_env [] [0, 9] 6 = Some [0]"
    using cell by (simp add: calculateCellAcuteness_def size_minus_1_def)
  have upd: "updateCellAcuteness ([] :: real list) [0, 9] [0] [7] = Some [0]"
    by (simp add: updateCellAcuteness_def updateCell_def size_minus_1_def to_size_t_def
        vec_at_def store_def in_int_def INT_MIN_def INT_MAX_def int_div_def)
  show ?thesis
    using h1 h2 h3 h4 cell full upd by blast
qed

section \<open>Indices outside the table in the incremental pass\<close>

text \<open>
  Claim C4. For a cell table with at least one entry and changed-cell indices that are
  values of type \<open>int\<close>, the indices that name no cell have no effect at all: the run on the
  whole list is the run on the list with them removed, a list made of such indices only
  returns the score table as it was (without an error, whatever the length of the score
  table), and for every table of two cells the changed list \<open>[7]\<close> leaves the scores
  \<open>[2, 5]\<close> as they are.
\<close>

theorem out_of_range_cells_skipped:
  assumes "cellIndices \<noteq> []"
      and "length cellIndices \<le> 2147483648"
      and "\<forall>c\<in>set changedCells. in_int c"
  shows "updateCellAcuteness vertices cellIndices changedCells previousScores =
           updateCellAcuteness vertices cellIndices
             (filter (in_range cellIndices) changedCells) previousScores \<and>
         ((\<forall>c\<in>set changedCells. \<not> in_range cellIndices c) \<longrightarrow>
            updateCellAcuteness vertices cellIndices changedCells previousScores
              = Some previousScores) \<and>
         (length cellIndices = 3 \<longrightarrow>
            updateCellAcuteness vertices cellIndices [7] [2, 5] = Some [2, 5])"
proof (intro conjI impI)
  show eq: "updateCellAcuteness vertices cellIndices changedCells previousScores =
           updateCellAcuteness vertices cellIndices
             (filter (in_range cellIndices) changedCells) previousScores"
    unfolding updateCellAcuteness_def using assms by (rule updateLoop_filter)
  {
    assume "\<forall>c\<in>set changedCells. \<not> in_range cellIndices c"
    then have "filter (in_range cellIndices) changedCells = []"
      by (simp add: filter_empty_conv)
    then show "updateCellAcuteness vertices cellIndices changedCells previousScores
                 = Some previousScores"
      using eq by (simp add: updateCellAcuteness_def)
  }
  {
    assume "length cellIndices = 3"
    then show "updateCellAcuteness vertices cellIndices [7] [2, 5] = Some [2, 5]"
      by (auto simp: updateCellAcuteness_def updateCell_def size_minus_1_def to_size_t_def)
  }
qed

text \<open>
  Scenario C on a table of two cells, with a negative index added to the changed list.
\<close>

theorem out_of_range_cells_skipped_witness:
  "[0, 12, 24 :: int] \<noteq> [] \<and> length [0, 12, 24 :: int] \<le> 2147483648 \<and>
   in_int 7 \<and> in_int (- 3) \<and>
   \<not> in_range [0, 12, 24] 7 \<and> \<not> in_range [0, 12, 24] (- 3) \<and>
   updateCellAcuteness ([] :: real list) [0, 12, 24] [7, - 3] [2, 5] = Some [2, 5]"
proof -
  have h1: "[0, 12, 24 :: int] \<noteq> []" and h2: "length [0, 12, 24 :: int] \<le> 2147483648"
    by simp_all
  have h3: "\<forall>c\<in>set [7, - 3]. in_int c"
    by (simp add: in_int_def INT_MIN_def INT_MAX_def)
  have h4: "\<forall>c\<in>set [7, - 3]. \<not> in_range [0, 12, 24] c"
    by (simp add: in_range_def)
  show ?thesis
    using h1 h2 h3 h4 out_of_range_cells_skipped[OF h1 h2 h3, of "[] :: real list" "[2, 5]"]
    by auto
qed

section \<open>Negative indices in the incremental pass\<close>

text \<open>
  Claim C10. A negative changed-cell index is converted to a \<open>size_t\<close> value of at least
  \<open>2 ^ 31\<close>, which is not below \<open>cellIndices.size() - 1\<close> for a cell table with at least one
  entry; the loop body then leaves the score table as it is without reading the cell table
  or writing a score, and the run continues with the rest of the list.
\<close>

theorem negative_cell_index_skipped:
  assumes "cellIndices \<noteq> []"
      and "length cellIndices \<le> 2147483648"
      and "INT_MIN \<le> cellIdx"
      and "cellIdx < 0"
  shows "2147483648 \<le> to_size_t cellIdx \<and>
         size_minus_1 cellIndices \<le> to_size_t cellIdx \<and>
         updateCell cellIndices cellIdx previousScores = Some previousScores \<and>
         updateCellAcuteness vertices cellIndices (cellIdx # rest) previousScores =
           updateCellAcuteness vertices cellIndices rest previousScores"
proof -
  have conv: "2147483648 \<le> to_size_t cellIdx"
    using assms(3,4) by (simp add: to_size_t_negative INT_MIN_def)
  have skip: "size_minus_1 cellIndices \<le> to_size_t cellIdx"
    using assms by (rule skip_negative)
  then have body: "updateCell cellIndices cellIdx previousScores = Some previousScores"
    by (simp add: updateCell_def)
  then show ?thesis
    using conv skip by (simp add: updateCellAcuteness_def)
qed

text \<open>
  The index \<open>- 1\<close> on a table of one cell whose score table is empty: a write would be out of
  bounds, and none is made.
\<close>

theorem negative_cell_index_skipped_witness:
  "[0, 12 :: int] \<noteq> [] \<and> length [0, 12 :: int] \<le> 2147483648 \<and> INT_MIN \<le> - 1 \<and>
   (- 1 :: int) < 0 \<and> to_size_t (- 1) = 4294967295 \<and>
   updateCellAcuteness ([] :: real list) [0, 12] [- 1] [] = Some []"
proof -
  have h1: "[0, 12 :: int] \<noteq> []" and h2: "length [0, 12 :: int] \<le> 2147483648"
    and h3: "INT_MIN \<le> - 1" and h4: "(- 1 :: int) < 0"
    by (simp_all add: INT_MIN_def)
  have "to_size_t (- 1) = 4294967295"
    by (simp add: to_size_t_def)
  then show ?thesis
    using h1 h2 h3 h4
      negative_cell_index_skipped[OF h1 h2 h3 h4, of "[]" "[] :: real list" "[]"]
    by (simp add: updateCellAcuteness_def)
qed

section \<open>Unordered pairs and the bound on a score\<close>

lemma length_unordered_pairs:
  "2 * length (unordered_pairs xs) = length xs * (length xs - 1)"
proof (induction xs)
  case Nil
  then show ?case by simp
next
  case (Cons a xs)
  then show ?case by (cases xs) (auto simp: algebra_simps)
qed

lemma set_unordered_pairs:
  "set (unordered_pairs xs) = {(xs ! j, xs ! k) | j k. j < k \<and> k < length xs}"
proof (induction xs)
  case Nil
  then show ?case by simp
next
  case (Cons a xs)
  have "{((a # xs) ! j, (a # xs) ! k) | j k. j < k \<and> k < length (a # xs)}
        = {(a, xs ! k) | k. k < length xs} \<union> {(xs ! j, xs ! k) | j k. j < k \<and> k < length xs}"
    (is "?L = ?A \<union> ?B")
  proof (intro equalityI subsetI)
    fix p assume "p \<in> ?L"
    then obtain j k where p: "p = ((a # xs) ! j, (a # xs) ! k)" and jk: "j < k" "k < length (a # xs)"
      by blast
    from jk obtain k' where k': "k = Suc k'" by (cases k) auto
    show "p \<in> ?A \<union> ?B"
    proof (cases j)
      case 0
      then show ?thesis using p k' jk by auto
    next
      case (Suc j')
      then have "p = (xs ! j', xs ! k')" "j' < k'" "k' < length xs"
        using p k' jk by auto
      then show ?thesis by blast
    qed
  next
    fix p assume "p \<in> ?A \<union> ?B"
    then show "p \<in> ?L"
    proof
      assume "p \<in> ?A"
      then obtain k where "p = (a, xs ! k)" "k < length xs" by blast
      then have "p = ((a # xs) ! 0, (a # xs) ! Suc k)" "0 < Suc k" "Suc k < length (a # xs)"
        by auto
      then show ?thesis by blast
    next
      assume "p \<in> ?B"
      then obtain j k where "p = (xs ! j, xs ! k)" "j < k" "k < length xs" by blast
      then have "p = ((a # xs) ! Suc j, (a # xs) ! Suc k)" "Suc j < Suc k" "Suc k < length (a # xs)"
        by auto
      then show ?thesis by blast
    qed
  qed
  moreover have "set (map (Pair a) xs) = {(a, xs ! k) | k. k < length xs}"
    by (auto simp: in_set_conv_nth image_iff)
  ultimately show ?case using Cons by simp
qed

lemma length_nearest_spec:
  assumes "0 \<le> v" "v < cellSize"
  shows "length (nearest_spec vertices start cellSize K v) = nat (min K (cellSize - 1))"
  using length_others[OF assms] by (simp add: nearest_spec_def)

lemma consecutive_nonneg: "0 \<le> (b::int) * (b - 1)"
proof (cases "b \<le> 0")
  case True
  then show ?thesis by (intro mult_nonpos_nonpos) auto
next
  case False
  then show ?thesis by (intro mult_nonneg_nonneg) auto
qed

lemma pairs_mono:
  assumes "(a::int) \<le> b" "0 \<le> a"
  shows "a * (a - 1) div 2 \<le> b * (b - 1) div 2"
proof -
  have "a * (a - 1) \<le> b * (b - 1)"
  proof (cases "a = 0")
    case True
    then show ?thesis using consecutive_nonneg[of b] by simp
  next
    case False
    then have "0 \<le> a - 1" "a - 1 \<le> b - 1" using assms by auto
    then show ?thesis using assms by (intro mult_mono) auto
  qed
  then show ?thesis by (rule zdiv_mono1) simp
qed

lemma acute_pair_count_le:
  assumes "0 \<le> v" "v < cellSize" "0 \<le> K"
  shows "acute_pair_count E vertices start cellSize K v
           \<le> min K (cellSize - 1) * (min K (cellSize - 1) - 1) div 2"
proof -
  let ?sel = "nearest_spec vertices start cellSize K v"
  let ?m = "min K (cellSize - 1)"
  have m: "0 \<le> ?m" using assms by simp
  have "acute_pair_count E vertices start cellSize K v \<le> int (length (unordered_pairs ?sel))"
    by (simp add: acute_pair_count_def)
  moreover have "2 * int (length (unordered_pairs ?sel)) = ?m * (?m - 1)"
  proof -
    have "2 * int (length (unordered_pairs ?sel)) = int (length ?sel * (length ?sel - 1))"
      using length_unordered_pairs[of ?sel] by (metis of_nat_mult of_nat_numeral)
    also have "\<dots> = ?m * (?m - 1)"
    proof (cases "?m = 0")
      case True
      then show ?thesis by (simp add: length_nearest_spec[OF assms(1,2)])
    next
      case False
      then have "1 \<le> nat ?m" using m by linarith
      then have "int (nat ?m - 1) = ?m - 1" using m by (simp add: of_nat_diff)
      then show ?thesis using m by (simp add: length_nearest_spec[OF assms(1,2)])
    qed
    finally show ?thesis .
  qed
  ultimately show ?thesis by linarith
qed

lemma cellAcuteness_Some_small:
  assumes "cellAcuteness E vertices cellIndices K i = Some s"
      and "int_div (cellIndices ! (i + 1) - cellIndices ! i) 3 < 4"
  shows "s = 0"
  using assms
  by (auto simp: cellAcuteness_def vec_at_def Let_def split: Option.bind_splits if_splits)

lemma sum_list_le_length_times:
  assumes "\<forall>x\<in>set xs. f x \<le> (c::int)"
  shows "sum_list (map f xs) \<le> int (length xs) * c"
  using assms by (induction xs) (auto simp: algebra_simps)

lemma total_acute_le:
  assumes "0 < cellSize" "0 \<le> K"
  shows "total_acute E vertices start cellSize K \<le> cellSize * (K * (K - 1) div 2)"
proof -
  have "\<forall>v\<in>set [0..cellSize - 1].
          acute_pair_count E vertices start cellSize K v \<le> K * (K - 1) div 2"
  proof
    fix v assume "v \<in> set [0..cellSize - 1]"
    then have v: "0 \<le> v" "v < cellSize" by auto
    have "acute_pair_count E vertices start cellSize K v
            \<le> min K (cellSize - 1) * (min K (cellSize - 1) - 1) div 2"
      using acute_pair_count_le[OF v assms(2)] .
    also have "\<dots> \<le> K * (K - 1) div 2"
      using assms by (intro pairs_mono) auto
    finally show "acute_pair_count E vertices start cellSize K v \<le> K * (K - 1) div 2" .
  qed
  then have "total_acute E vertices start cellSize K
               \<le> int (length [0..cellSize - 1]) * (K * (K - 1) div 2)"
    unfolding total_acute_def by (rule sum_list_le_length_times)
  then show ?thesis using assms by simp
qed

lemma cellAcuteness_bounded:
  assumes "cellAcuteness E vertices cellIndices K i = Some s"
  shows "0 \<le> s \<and> s \<le> K * (K - 1) div 2"
proof (cases "int_div (cellIndices ! (i + 1) - cellIndices ! i) 3 < 4")
  case True
  then have "s = 0" using cellAcuteness_Some_small[OF assms] by simp
  moreover have "0 \<le> K * (K - 1) div 2"
    using consecutive_nonneg[of K] by simp
  ultimately show ?thesis by simp
next
  case False
  let ?n = "int_div (cellIndices ! (i + 1) - cellIndices ! i) 3"
  let ?t = "total_acute E vertices (cellIndices ! i) ?n K"
  from False have n: "4 \<le> ?n" by simp
  note r = cellAcuteness_Some[OF assms n]
  have s: "s = ?t div ?n" using r(1) by (simp add: score_spec_def)
  have "0 \<le> ?t" by (rule total_acute_nonneg)
  then have lo: "0 \<le> s" using s n by (simp add: pos_imp_zdiv_nonneg_iff)
  have "?t \<le> ?n * (K * (K - 1) div 2)"
    using total_acute_le[of ?n K] n r(2) by simp
  then have "?t div ?n \<le> (?n * (K * (K - 1) div 2)) div ?n"
    using n by (intro zdiv_mono1) auto
  then have "s \<le> K * (K - 1) div 2" using s n by simp
  then show ?thesis using lo by simp
qed

section \<open>The full pass is defined on well-formed inputs\<close>

lemma readVec3_in_bounds:
  assumes "cell_in_bounds vertices start cellSize" "0 \<le> n" "n < cellSize"
  shows "readVec3 vertices (start + n * 3) = Some (vertexOf vertices start n)"
proof -
  let ?idx = "start + n * 3"
  have b: "0 \<le> ?idx" "?idx + 2 < int (length vertices)" "?idx + 2 \<le> INT_MAX"
    using assms by (auto simp: cell_in_bounds_def)
  then have "in_int ?idx" "in_int (?idx + 2)"
    by (auto simp: in_int_def INT_MIN_def)
  moreover have "to_size_t ?idx < length vertices" "to_size_t (?idx + 1) < length vertices"
    "to_size_t (?idx + 2) < length vertices"
    using b by (auto simp: to_size_t_nonneg)
  ultimately show ?thesis
    by (simp add: readVec3_def vec_at_def vertexOf_def)
qed

lemma distancesLoop_total:
  assumes "cell_in_bounds vertices start cellSize"
      and "\<forall>other\<in>set os. 0 \<le> other \<and> other < cellSize"
  shows "distancesLoop vertices start center v os =
           Some (map (\<lambda>other. (lengthSquared (vec_minus (vertexOf vertices start other) center), other))
                  (filter (\<lambda>other. other \<noteq> v) os))"
  using assms(2)
  by (induction os) (auto simp: readVec3_in_bounds[OF assms(1)])

lemma nearestNeighbors_total:
  assumes "cell_in_bounds vertices start cellSize" "0 \<le> v" "v < cellSize" "0 \<le> K"
  shows "nearestNeighbors vertices start cellSize K (vertexOf vertices start v) v =
           Some (nearest_spec vertices start cellSize K v)"
proof -
  let ?ds = "map (\<lambda>other. (distanceSquared vertices start v other, other)) (others cellSize v)"
  have ds: "distancesLoop vertices start (vertexOf vertices start v) v [0..cellSize - 1] = Some ?ds"
    using distancesLoop_total[OF assms(1), of "[0..cellSize - 1]"]
    by (simp add: distanceSquared_def others_def)
  have len: "int (length ?ds) = cellSize - 1"
    using length_others[OF assms(2,3)] assms by simp
  have "partial_sort ?ds (std_min K (int (length ?ds))) = Some (take (nat (min K (cellSize - 1))) (sort ?ds))"
    unfolding len std_min_int using assms len by (simp add: partial_sort_def)
  then show ?thesis
    using ds by (simp add: nearestNeighbors_def nearest_spec_def)
qed

lemma neighborVecs_total:
  assumes "cell_in_bounds vertices start cellSize"
      and "\<forall>p\<in>set ps. 0 \<le> snd p \<and> snd p < cellSize"
  shows "neighborVecs vertices start center ps =
           Some (map (\<lambda>p. vec_minus (vertexOf vertices start (snd p)) center) ps)"
  using assms(2)
  by (induction ps) (auto simp: readVec3_in_bounds[OF assms(1)])

lemma set_nearest_spec:
  "set (nearest_spec vertices start cellSize K v)
     \<subseteq> (\<lambda>other. (distanceSquared vertices start v other, other)) ` set (others cellSize v)"
  unfolding nearest_spec_def using set_take_subset by fastforce

lemma snd_nearest_spec:
  assumes "p \<in> set (nearest_spec vertices start cellSize K v)"
  shows "0 \<le> snd p" "snd p < cellSize" "snd p \<noteq> v"
    "fst p = distanceSquared vertices start v (snd p)"
proof -
  obtain other where o: "other \<in> set (others cellSize v)"
    and p: "p = (distanceSquared vertices start v other, other)"
    using assms set_nearest_spec[of vertices start cellSize K v] by blast
  show "0 \<le> snd p" "snd p < cellSize" "snd p \<noteq> v"
    "fst p = distanceSquared vertices start v (snd p)"
    using o p by (auto simp: others_def)
qed

lemma vertexAcute_total:
  assumes "cell_in_bounds vertices start cellSize" "0 \<le> v" "v < cellSize" "0 \<le> K"
  shows "vertexAcute E vertices start cellSize K v =
           Some (acute_pair_count E vertices start cellSize K v)"
proof -
  let ?sel = "nearest_spec vertices start cellSize K v"
  let ?center = "vertexOf vertices start v"
  have vs: "neighborVecs vertices start ?center ?sel =
              Some (map (\<lambda>p. vec_minus (vertexOf vertices start (snd p)) ?center) ?sel)"
    using snd_nearest_spec(1,2) by (intro neighborVecs_total[OF assms(1)]) blast
  show ?thesis
    unfolding vertexAcute_def
    by (simp add: readVec3_in_bounds[OF assms(1-3)] nearestNeighbors_total[OF assms] vs
        countAcute_pairs acute_pair_count_def unordered_pairs_map filter_map o_def
        case_prod_unfold is_acute_def)
qed

lemma vertexLoop_total:
  assumes "cell_in_bounds vertices start cellSize" "0 \<le> K"
      and "\<forall>v\<in>set vl. 0 \<le> v \<and> v < cellSize"
  shows "vertexLoop E vertices start cellSize K vl acc =
           Some (acc + sum_list (map (acute_pair_count E vertices start cellSize K) vl))"
  using assms(3)
  by (induction vl arbitrary: acc) (auto simp: vertexAcute_total[OF assms(1) _ _ assms(2)])

lemma cellAcuteness_total:
  assumes "i + 1 < length cellIndices"
      and "in_int (cellIndices ! (i + 1) - cellIndices ! i)"
      and "cell_in_bounds vertices (cellIndices ! i) (int_div (cellIndices ! (i + 1) - cellIndices ! i) 3)"
      and "0 \<le> K"
      and "in_int (total_acute E vertices (cellIndices ! i) (int_div (cellIndices ! (i + 1) - cellIndices ! i) 3) K)"
  shows "cellAcuteness E vertices cellIndices K i =
           Some (if int_div (cellIndices ! (i + 1) - cellIndices ! i) 3 < 4 then 0
                 else score_spec E vertices (cellIndices ! i)
                        (int_div (cellIndices ! (i + 1) - cellIndices ! i) 3) K)"
proof (cases "int_div (cellIndices ! (i + 1) - cellIndices ! i) 3 < 4")
  case True
  then show ?thesis using cellAcuteness_degenerate[OF assms(1,2)] by simp
next
  case False
  let ?n = "int_div (cellIndices ! (i + 1) - cellIndices ! i) 3"
  have loop: "vertexLoop E vertices (cellIndices ! i) ?n K [0..?n - 1] 0
                = Some (total_acute E vertices (cellIndices ! i) ?n K)"
    using vertexLoop_total[OF assms(3,4), of "[0..?n - 1]" E 0] by (simp add: total_acute_def)
  have "int_div (total_acute E vertices (cellIndices ! i) ?n K) ?n
          = score_spec E vertices (cellIndices ! i) ?n K"
    using False total_acute_nonneg[of E vertices "cellIndices ! i" ?n K]
    by (simp add: score_spec_def int_div_nonneg)
  then show ?thesis
    using False assms(1,2,5) loop by (simp add: cellAcuteness_def vec_at_def)
qed

lemma int_div_3: "0 \<le> a \<Longrightarrow> int_div a 3 = a div 3"
  by (simp add: int_div_nonneg)

lemma wellformed_cell:
  assumes "wellformed vertices cellIndices" "i + 1 < length cellIndices"
  shows "in_int (cellIndices ! (i + 1) - cellIndices ! i)"
    and "cell_in_bounds vertices (cellIndices ! i) (int_div (cellIndices ! (i + 1) - cellIndices ! i) 3)"
    and "0 \<le> int_div (cellIndices ! (i + 1) - cellIndices ! i) 3"
    and "int_div (cellIndices ! (i + 1) - cellIndices ! i) 3 \<le> int (length vertices) div 3"
proof -
  let ?s = "cellIndices ! i" and ?e = "cellIndices ! (i + 1)"
  have ne: "cellIndices \<noteq> []" and srt: "sorted cellIndices" and h: "0 \<le> hd cellIndices"
    and l: "last cellIndices \<le> int (length vertices)" "last cellIndices \<le> INT_MAX"
    using assms(1) by (auto simp: wellformed_def)
  have "hd cellIndices = cellIndices ! 0" using ne by (simp add: hd_conv_nth)
  also have "\<dots> \<le> ?s" using srt assms(2) by (intro sorted_nth_mono) auto
  finally have s0: "0 \<le> ?s" using h by simp
  have se: "?s \<le> ?e" using srt assms(2) by (intro sorted_nth_mono) auto
  have "?e \<le> cellIndices ! (length cellIndices - 1)"
    using srt assms(2) by (intro sorted_nth_mono) auto
  also have "\<dots> = last cellIndices" using ne by (simp add: last_conv_nth)
  finally have el: "?e \<le> int (length vertices)" "?e \<le> INT_MAX" using l by auto
  show "in_int (?e - ?s)"
    using s0 se el by (auto simp: in_int_def INT_MIN_def)
  have d: "int_div (?e - ?s) 3 = (?e - ?s) div 3" using se by (simp add: int_div_3)
  show "0 \<le> int_div (?e - ?s) 3" using se d by simp
  have m: "(?e - ?s) div 3 * 3 \<le> ?e - ?s" using se by presburger
  show "cell_in_bounds vertices ?s (int_div (?e - ?s) 3)"
    unfolding cell_in_bounds_def d using s0 el m by auto
  show "int_div (?e - ?s) 3 \<le> int (length vertices) div 3"
    unfolding d using s0 el by (intro zdiv_mono1) auto
qed

lemma calculateCellAcuteness_total:
  assumes "wellformed vertices cellIndices" "0 \<le> K"
      and "(int (length vertices) div 3) * (K * (K - 1) div 2) \<le> INT_MAX"
  shows "calculateCellAcuteness E vertices cellIndices K =
           Some (map (\<lambda>i. if int_div (cellIndices ! (i + 1) - cellIndices ! i) 3 < 4 then 0
                          else score_spec E vertices (cellIndices ! i)
                                 (int_div (cellIndices ! (i + 1) - cellIndices ! i) 3) K)
                  [0..<length cellIndices - 1])"
proof -
  have ne: "cellIndices \<noteq> []" using assms(1) by (simp add: wellformed_def)
  {
    fix i assume i: "i < length cellIndices - 1"
    then have i1: "i + 1 < length cellIndices" by simp
    let ?n = "int_div (cellIndices ! (i + 1) - cellIndices ! i) 3"
    note w = wellformed_cell[OF assms(1) i1]
    have b: "0 \<le> K * (K - 1) div 2" using consecutive_nonneg[of K] by simp
    have "total_acute E vertices (cellIndices ! i) ?n K \<le> INT_MAX"
    proof (cases "?n = 0")
      case True
      then show ?thesis by (simp add: total_acute_def INT_MAX_def)
    next
      case False
      then have "0 < ?n" using w(3) by simp
      then have "total_acute E vertices (cellIndices ! i) ?n K \<le> ?n * (K * (K - 1) div 2)"
        using assms(2) by (rule total_acute_le)
      also have "\<dots> \<le> (int (length vertices) div 3) * (K * (K - 1) div 2)"
        using w(4) b by (rule mult_right_mono)
      finally show ?thesis using assms(3) by simp
    qed
    then have "in_int (total_acute E vertices (cellIndices ! i) ?n K)"
      using total_acute_nonneg[of E vertices "cellIndices ! i" ?n K]
      by (simp add: in_int_def INT_MIN_def)
    then have "cellAcuteness E vertices cellIndices K i =
           Some (if ?n < 4 then 0 else score_spec E vertices (cellIndices ! i) ?n K)"
      using cellAcuteness_total[OF i1 w(1,2) assms(2)] by simp
  }
  then show ?thesis
    using ne by (simp add: calculateCellAcuteness_def cellsLoop_Some size_minus_1_def)
qed

section \<open>Sorting by squared distance\<close>




section \<open>The exact environment: the literal is below a right angle\<close>

text \<open>
  The cosine of \<open>1.5707963\<close> is positive, by the Maclaurin expansion of the cosine to order
  16, so this decimal, and with it the value of the literal, lies strictly below \<open>pi / 2\<close>.
\<close>

lemma cos_poly_16:
  fixes x :: real
  shows "(\<Sum>m<16. cos_coeff m * x ^ m) =
    1 - x^2 / 2 + x^4 / 24 - x^6 / 720 + x^8 / 40320 - x^10 / 3628800
      + x^12 / 479001600 - x^14 / 87178291200"
  by (simp add: lessThan_nat_numeral cos_coeff_def fact_numeral)

lemma cos_lower_16:
  fixes x :: real
  assumes "0 < x"
  shows "(\<Sum>m<16. cos_coeff m * x ^ m) - x ^ 16 / fact 16 \<le> cos x"
proof -
  obtain t where t: "cos x = (\<Sum>m<16. cos_coeff m * x ^ m)
                      + (cos (t + 1/2 * real 16 * pi) / fact 16) * x ^ 16"
    using Maclaurin_cos_expansion2[OF assms, of 16] by auto
  have "0 \<le> x ^ 16 / fact 16"
    using assms by simp
  then have "(- 1) * (x ^ 16 / fact 16) \<le> cos (t + 1/2 * real 16 * pi) * (x ^ 16 / fact 16)"
    by (intro mult_right_mono) simp_all
  then show ?thesis
    using t by simp
qed

lemma cos_decimal_pos: "0 < cos (15707963 / 10000000 :: real)"
proof -
  have "(0::real) < (\<Sum>m<16. cos_coeff m * (15707963 / 10000000) ^ m)
                      - (15707963 / 10000000) ^ 16 / fact 16"
    unfolding cos_poly_16 by (simp add: fact_numeral power_divide)
  also have "\<dots> \<le> cos (15707963 / 10000000 :: real)"
    by (rule cos_lower_16) simp
  finally show ?thesis .
qed

lemma decimal_less_half_pi: "(15707963 / 10000000 :: real) < pi / 2"
proof (rule ccontr)
  assume "\<not> (15707963 / 10000000 :: real) < pi / 2"
  then have le: "pi / 2 \<le> (15707963 / 10000000 :: real)"
    by simp
  have "(15707963 / 10000000 :: real) \<le> pi"
    using pi_ge_two by linarith
  then have "cos (15707963 / 10000000 :: real) \<le> cos (pi / 2)"
    using le by (intro cos_monotone_0_pi_le) simp_all
  then show False
    using cos_decimal_pos by simp
qed

lemma HALF_PI_less_half_pi: "HALF_PI real_env < pi / 2"
proof -
  have "HALF_PI real_env < (15707963 / 10000000 :: real)"
    by (simp add: real_env_def)
  then show ?thesis
    using decimal_less_half_pi by (rule less_trans)
qed

lemma quarter_pi_less_HALF_PI: "pi / 4 < HALF_PI real_env"
  using pi_less_4 by (simp add: real_env_def)

lemma HALF_PI_real_pos: "0 < HALF_PI real_env"
  by (simp add: real_env_def)

lemma right_angle_not_acute:
  assumes "dot u w = 0" "lengthSquared u \<noteq> 0" "lengthSquared w \<noteq> 0"
  shows "calculateAngle real_env u w = pi / 2"
    and "\<not> calculateAngle real_env u w < HALF_PI real_env"
proof -
  show a: "calculateAngle real_env u w = pi / 2"
    using assms by (simp add: calculateAngle_def Let_def std_min_def std_max_def real_env_def)
  show "\<not> calculateAngle real_env u w < HALF_PI real_env"
    unfolding a using HALF_PI_less_half_pi by simp
qed

lemma half_right_angle_acute:
  assumes "dot u w = 1" "lengthSquared u * lengthSquared w = 2"
  shows "calculateAngle real_env u w = pi / 4"
    and "calculateAngle real_env u w < HALF_PI real_env"
proof -
  have nz: "lengthSquared u \<noteq> 0" "lengthSquared w \<noteq> 0"
    using assms(2) by auto
  have "1 / sqrt 2 < (1::real)"
    by simp
  moreover have "- 1 < 1 / sqrt (2::real)"
    by (rule less_trans[of _ 0]) simp_all
  ultimately show a: "calculateAngle real_env u w = pi / 4"
    using assms nz
    by (simp add: calculateAngle_def Let_def std_min_def std_max_def real_env_def
        arccos_one_over_sqrt_2)
  show "calculateAngle real_env u w < HALF_PI real_env"
    unfolding a by (rule quarter_pi_less_HALF_PI)
qed

section \<open>Rounding to single precision\<close>

text \<open>
  \<open>round32\<close> at a real number \<open>r\<close> of the binade \<open>2 ^ k \<le> \<bar>r\<bar> < 2 ^ (k + 1)\<close> is the multiple
  \<open>n * 2 ^ (k - 23)\<close> of the spacing of that binade whenever \<open>r\<close> is less than half a spacing
  away from it; below \<open>2 ^ - 126\<close> the spacing is \<open>2 ^ - 149\<close>. The evaluations that follow are
  instances: the value \<open>11744051 / 16777216\<close> is the float \<open>0.7f\<close>.
\<close>

lemma rne_near:
  assumes "\<bar>q - of_int n\<bar> < 1 / 2"
  shows "rne q = n"
proof (cases "of_int n \<le> q")
  case True
  then have f: "\<lfloor>q\<rfloor> = n"
    using assms by (intro floor_unique) auto
  have "q - of_int n < 1 / 2"
    using assms by linarith
  then show ?thesis
    using f by (simp add: rne_def Let_def)
next
  case False
  then have f: "\<lfloor>q\<rfloor> = n - 1"
    using assms by (intro floor_unique) auto
  have "1 / 2 < q - of_int (n - 1)"
    using assms False by simp
  then show ?thesis
    using f by (simp add: rne_def Let_def)
qed

lemma two_powr_int: "(2::real) powr real_of_int k = 2 powi k"
  by (rule powr_real_of_int') simp_all

lemma round32_normal:
  assumes "2 powi k \<le> \<bar>r\<bar>" "\<bar>r\<bar> < 2 powi (k + 1)" "- 126 \<le> k"
      and "\<bar>r / 2 powi (k - 23) - of_int n\<bar> < 1 / 2"
  shows "round32 r = of_int n * 2 powi (k - 23)"
proof -
  have pos: "0 < \<bar>r\<bar>"
    using assms(1) by (smt (verit) zero_less_power_int)
  have "2 powr (real_of_int k) \<le> \<bar>r\<bar>" "\<bar>r\<bar> < 2 powr (real_of_int (k + 1))"
    using assms(1,2) by (simp_all only: two_powr_int)
  then have "\<lfloor>log 2 \<bar>r\<bar>\<rfloor> = k"
    using pos by (simp add: floor_log_eq_powr_iff)
  then have e: "max \<lfloor>log 2 \<bar>r\<bar>\<rfloor> (- 126) - 23 = k - 23"
    using assms(3) by simp
  show ?thesis
    unfolding round32_def Let_def e using pos rne_near[OF assms(4)] by simp
qed

lemma round32_subnormal:
  assumes "\<bar>r\<bar> < 2 powi (- 126)" "\<bar>r / 2 powi (- 149) - of_int n\<bar> < 1 / 2"
  shows "round32 r = of_int n * 2 powi (- 149)"
proof (cases "r = 0")
  case True
  then have "n = 0" using assms(2) by simp
  then show ?thesis using True by (simp add: round32_def)
next
  case False
  then have pos: "0 < \<bar>r\<bar>" by simp
  have "\<bar>r\<bar> < 2 powr (real_of_int (- 126))"
    using assms(1) by (simp only: two_powr_int)
  then have "log 2 \<bar>r\<bar> < - 126"
    using pos by (simp add: log_less_iff)
  then have "\<lfloor>log 2 \<bar>r\<bar>\<rfloor> \<le> - 126"
    by linarith
  then have e: "max \<lfloor>log 2 \<bar>r\<bar>\<rfloor> (- 126) - 23 = - 149"
    by simp
  show ?thesis
    unfolding round32_def Let_def e using False rne_near[OF assms(2)] by simp
qed

lemma round32_0: "round32 0 = 0"
  by (simp add: round32_def)

lemma round32_1: "round32 1 = 1"
  using round32_normal[of 0 1 8388608] by simp

lemma round32_minus_1: "round32 (- 1) = - 1"
  using round32_normal[of 0 "- 1" "- 8388608"] by simp

lemma round32_2: "round32 2 = 2"
  using round32_normal[of 1 2 8388608] by simp

lemma round32_49: "round32 49 = 49"
  using round32_normal[of 5 49 12845056] by simp

lemma round32_m24: "round32 (1 / 16777216) = 1 / 16777216"
  using round32_normal[of "- 24" "1 / 16777216" 8388608] by simp

lemma round32_m48: "round32 (1 / 281474976710656) = 1 / 281474976710656"
  using round32_normal[of "- 48" "1 / 281474976710656" 8388608] by simp

lemma round32_1_plus: "round32 (281474976710657 / 281474976710656) = 1"
  using round32_normal[of 0 "281474976710657 / 281474976710656" 8388608] by simp

lemma round32_underflow: "round32 (1 / 2 ^ 152) = 0"
  using round32_subnormal[of "1 / 2 ^ 152" 0] by simp

lemma round32_seven_tenths:
  "round32 (82208357 / 16777216) = 10276045 / 2097152"
  "round32 (- (82208357 / 16777216)) = - (10276045 / 2097152)"
  "round32 (137922733890601 / 281474976710656) = 16441671 / 33554432"
  "round32 (805641879 / 33554432) = 6294077 / 262144"
  "round32 (10276045 / 10276044) = 8388609 / 8388608"
  "round32 (- (10276045 / 10276044)) = - (8388609 / 8388608)"
  "round32 (16441671 / 33554432) = 16441671 / 33554432"
  "round32 (10276045 / 2097152) = 10276045 / 2097152"
  "round32 (- (10276045 / 2097152)) = - (10276045 / 2097152)"
  using round32_normal[of 2 "82208357 / 16777216" 10276045]
    round32_normal[of 2 "- (82208357 / 16777216)" "- 10276045"]
    round32_normal[of "- 2" "137922733890601 / 281474976710656" 16441671]
    round32_normal[of 4 "805641879 / 33554432" 12588154]
    round32_normal[of 0 "10276045 / 10276044" 8388609]
    round32_normal[of 0 "- (10276045 / 10276044)" "- 8388609"]
    round32_normal[of "- 2" "16441671 / 33554432" 16441671]
    round32_normal[of 2 "10276045 / 2097152" 10276045]
    round32_normal[of 2 "- (10276045 / 2097152)" "- 10276045"]
  by simp_all

lemma round32_sqrt_seven_tenths: "round32 (sqrt (6294077 / 262144)) = 2569011 / 524288"
proof -
  have lo: "(20552087 / 4194304 :: real) < sqrt (6294077 / 262144)"
    by (rule real_less_rsqrt) (simp add: power2_eq_square)
  have hi: "sqrt (6294077 / 262144) < (20552089 / 4194304 :: real)"
    by (rule real_less_lsqrt) (simp_all add: power2_eq_square)
  have "\<bar>sqrt (6294077 / 262144) / 2 powi (2 - 23) - of_int 10276044\<bar> < 1 / 2"
    using lo hi by (simp add: abs_if field_simps)
  then show ?thesis
    using round32_normal[of 2 "sqrt (6294077 / 262144)" 10276044] lo hi by simp
qed

lemma round32_sqrt_2: "round32 (sqrt 2) = 11863283 / 8388608"
proof -
  have lo: "(23726565 / 16777216 :: real) < sqrt 2"
    by (rule real_less_rsqrt) (simp add: power2_eq_square)
  have hi: "sqrt 2 < (23726567 / 16777216 :: real)"
    by (rule real_less_lsqrt) (simp_all add: power2_eq_square)
  have "\<bar>sqrt 2 / 2 powi (0 - 23) - of_int 11863283\<bar> < 1 / 2"
    using lo hi by (simp add: abs_if field_simps)
  then show ?thesis
    using round32_normal[of 0 "sqrt 2" 11863283] lo hi by simp
qed

lemma round32_inverse_sqrt_2: "round32 (8388608 / 11863283) = 11863283 / 16777216"
  using round32_normal[of "- 1" "8388608 / 11863283" 11863283] by simp

section \<open>The inverse cosine next to a right angle and at half a right angle\<close>

text \<open>
  Bounds of the cosine from its Maclaurin expansion locate \<open>pi / 2\<close>, the inverse cosine of
  \<open>2 ^ - 24\<close> and the inverse cosine of the float nearest to \<open>1 / sqrt 2\<close> between two
  neighbouring midpoints of floats, which gives their roundings: \<open>pi / 2\<close> rounds up to
  \<open>13176795 / 8388608\<close>, the inverse cosine of \<open>2 ^ - 24\<close> rounds down to \<open>6588397 / 4194304\<close>,
  the float just below.
\<close>

lemma cos_upper_16:
  fixes x :: real
  assumes "0 < x"
  shows "cos x \<le> (\<Sum>m<16. cos_coeff m * x ^ m) + x ^ 16 / fact 16"
proof -
  obtain t where t: "cos x = (\<Sum>m<16. cos_coeff m * x ^ m)
                      + (cos (t + 1/2 * real 16 * pi) / fact 16) * x ^ 16"
    using Maclaurin_cos_expansion2[OF assms, of 16] by auto
  have "0 \<le> x ^ 16 / fact 16"
    using assms by simp
  then have "cos (t + 1/2 * real 16 * pi) * (x ^ 16 / fact 16) \<le> 1 * (x ^ 16 / fact 16)"
    by (intro mult_right_mono) simp_all
  then show ?thesis
    using t by simp
qed

lemma cos_greater:
  fixes x c :: real
  assumes "0 < x"
      and "c < 1 - x^2 / 2 + x^4 / 24 - x^6 / 720 + x^8 / 40320 - x^10 / 3628800
                 + x^12 / 479001600 - x^14 / 87178291200 - x ^ 16 / 20922789888000"
  shows "c < cos x"
proof -
  have "c < (\<Sum>m<16. cos_coeff m * x ^ m) - x ^ 16 / fact 16"
    unfolding cos_poly_16 using assms(2) by (simp add: fact_numeral)
  also have "\<dots> \<le> cos x"
    using assms(1) by (rule cos_lower_16)
  finally show ?thesis .
qed

lemma cos_less:
  fixes x c :: real
  assumes "0 < x"
      and "1 - x^2 / 2 + x^4 / 24 - x^6 / 720 + x^8 / 40320 - x^10 / 3628800
                 + x^12 / 479001600 - x^14 / 87178291200 + x ^ 16 / 20922789888000 < c"
  shows "cos x < c"
proof -
  have "cos x \<le> (\<Sum>m<16. cos_coeff m * x ^ m) + x ^ 16 / fact 16"
    using assms(1) by (rule cos_upper_16)
  also have "\<dots> < c"
    unfolding cos_poly_16 using assms(2) by (simp add: fact_numeral)
  finally show ?thesis .
qed

lemma arccos_between:
  fixes lo hi c :: real
  assumes "0 \<le> lo" "lo \<le> pi" "0 \<le> hi" "hi \<le> pi" "cos hi < c" "c < cos lo"
  shows "lo < arccos c" "arccos c < hi"
proof -
  have c: "- 1 \<le> c" "c \<le> 1"
    using assms(5,6) cos_ge_minus_one[of hi] cos_le_one[of lo] by linarith+
  have "arccos (cos lo) < arccos c"
    using assms(6) c by (intro arccos_less_arccos) simp_all
  then show "lo < arccos c"
    using assms(1,2) by (simp add: arccos_cos)
  have "arccos c < arccos (cos hi)"
    using assms(5) c by (intro arccos_less_arccos) simp_all
  then show "arccos c < hi"
    using assms(3,4) by (simp add: arccos_cos)
qed

lemma near_pi:
  "(26353587 / 16777216 :: real) \<le> pi" "(26353589 / 16777216 :: real) \<le> pi"
  "(26353589 / 33554432 :: real) \<le> pi" "(26353591 / 33554432 :: real) \<le> pi"
  using pi_ge_two by linarith+

lemma arccos_near_right_angle:
  "26353587 / 16777216 < arccos (1 / 16777216)" "arccos (1 / 16777216) < 26353589 / 16777216"
proof -
  have lo: "1 / 16777216 < cos (26353587 / 16777216 :: real)"
    by (rule cos_greater) (simp_all add: power_divide)
  have hi: "cos (26353589 / 16777216 :: real) < 1 / 16777216"
    by (rule cos_less) (simp_all add: power_divide)
  show "26353587 / 16777216 < arccos (1 / 16777216)"
    "arccos (1 / 16777216) < 26353589 / 16777216"
    using arccos_between[OF _ near_pi(1) _ near_pi(2) hi lo] by simp_all
qed

lemma round32_arccos_near_right_angle: "round32 (arccos (1 / 16777216)) = 6588397 / 4194304"
proof -
  note a = arccos_near_right_angle
  have "\<bar>arccos (1 / 16777216) / 2 powi (0 - 23) - of_int 13176794\<bar> < 1 / 2"
    using a by (simp add: abs_if field_simps)
  then show ?thesis
    using round32_normal[of 0 "arccos (1 / 16777216)" 13176794] a by simp
qed

lemma arccos_half_right_angle:
  "26353589 / 33554432 < arccos (11863283 / 16777216)"
  "arccos (11863283 / 16777216) < 26353591 / 33554432"
proof -
  have lo: "11863283 / 16777216 < cos (26353589 / 33554432 :: real)"
    by (rule cos_greater) (simp_all add: power_divide)
  have hi: "cos (26353591 / 33554432 :: real) < 11863283 / 16777216"
    by (rule cos_less) (simp_all add: power_divide)
  show "26353589 / 33554432 < arccos (11863283 / 16777216)"
    "arccos (11863283 / 16777216) < 26353591 / 33554432"
    using arccos_between[OF _ near_pi(3) _ near_pi(4) hi lo] by simp_all
qed

lemma round32_arccos_half_right_angle:
  "round32 (arccos (11863283 / 16777216)) = 13176795 / 16777216"
proof -
  note a = arccos_half_right_angle
  have "\<bar>arccos (11863283 / 16777216) / 2 powi (- 1 - 23) - of_int 13176795\<bar> < 1 / 2"
    using a by (simp add: abs_if field_simps)
  then show ?thesis
    using round32_normal[of "- 1" "arccos (11863283 / 16777216)" 13176795] a by simp
qed

lemma half_pi_between:
  "26353589 / 16777216 < pi / 2" "pi / 2 < 13176795 / 8388608"
proof -
  have lo: "0 < cos (26353589 / 16777216 :: real)"
    by (rule cos_greater) (simp_all add: power_divide)
  have hi: "cos (13176795 / 8388608 :: real) < 0"
    by (rule cos_less) (simp_all add: power_divide)
  have p: "(13176795 / 8388608 :: real) \<le> pi"
    using pi_ge_two by linarith
  show "26353589 / 16777216 < pi / 2" "pi / 2 < 13176795 / 8388608"
    using arccos_between[OF _ near_pi(2) _ p hi lo] by simp_all
qed

lemma round32_half_pi: "round32 (pi / 2) = 13176795 / 8388608"
proof -
  note a = half_pi_between
  have "\<bar>pi / 2 / 2 powi (0 - 23) - of_int 13176795\<bar> < 1 / 2"
    using a by (simp add: abs_if field_simps)
  then show ?thesis
    using round32_normal[of 0 "pi / 2" 13176795] a by simp
qed

section \<open>Single-precision evaluations\<close>

text \<open>
  \<open>calculateAngle\<close> in single precision: on the pair \<open>(1, 0, 0)\<close>, \<open>(2 ^ - 24, 1, 0)\<close> the
  quotient is \<open>2 ^ - 24\<close> and the angle is the float \<open>6588397 / 4194304\<close>; the squared length
  of \<open>(2 ^ - 76, 0, 0)\<close> underflows to zero; on the parallel vectors \<open>(0, 7, 0)\<close> and
  \<open>(0, 0.7f, 0)\<close> the quotient is \<open>1 + 2 ^ - 23\<close>, above \<open>1\<close>, and with the second vector
  reversed it is below \<open>- 1\<close>.
\<close>

lemmas f32_arith = zero_f32_def one_f32_def plus_f32_def minus_f32_def times_f32_def
  uminus_f32_def divide_f32_def less_eq_f32_def less_f32_def

lemma f32_env_facts: "unit_square_facts f32_env"
  by (simp add: unit_square_facts_def f32_env_def f32_arith round32_0 round32_1 round32_minus_1
      round32_2 round32_sqrt_2 round32_inverse_sqrt_2 round32_half_pi
      round32_arccos_half_right_angle)

lemma near_right_angle:
  "cosTheta f32_env (Vec3 1 0 0) (Vec3 (F32 (1 / 16777216)) 1 0) = F32 (1 / 16777216)"
  "calculateAngle f32_env (Vec3 1 0 0) (Vec3 (F32 (1 / 16777216)) 1 0) = F32 (6588397 / 4194304)"
  by (simp_all add: cosTheta_def calculateAngle_def Let_def dot_def lengthSquared_def
      std_min_def std_max_def f32_env_def f32_arith round32_0 round32_1 round32_m24 round32_m48
      round32_1_plus round32_arccos_near_right_angle)

lemma underflow_angle:
  "lengthSquared (Vec3 (F32 (1 / 2 ^ 76)) 0 0) = 0"
  "calculateAngle f32_env (Vec3 (F32 (1 / 2 ^ 76)) 0 0) (Vec3 0 1 0) = 0"
  using round32_underflow
  by (simp_all add: calculateAngle_def Let_def lengthSquared_def f32_arith round32_0)

lemma seven_tenths:
  "lengthSquared (Vec3 0 (F32 7) 0) = F32 49"
  "lengthSquared (Vec3 0 (F32 (11744051 / 16777216)) 0) = F32 (16441671 / 33554432)"
  "lengthSquared (Vec3 0 (F32 (- (11744051 / 16777216))) 0) = F32 (16441671 / 33554432)"
  "cosTheta f32_env (Vec3 0 (F32 7) 0) (Vec3 0 (F32 (11744051 / 16777216)) 0)
     = F32 (8388609 / 8388608)"
  "cosTheta f32_env (Vec3 0 (F32 7) 0) (Vec3 0 (F32 (- (11744051 / 16777216))) 0)
     = F32 (- (8388609 / 8388608))"
  by (simp_all add: cosTheta_def dot_def lengthSquared_def f32_env_def f32_arith round32_0
      round32_49 round32_seven_tenths round32_sqrt_seven_tenths)

lemma f32_right_angle:
  "calculateAngle f32_env (Vec3 1 0 0) (Vec3 0 1 0) = F32 (13176795 / 8388608)"
  by (simp add: calculateAngle_def Let_def dot_def lengthSquared_def std_min_def std_max_def
      f32_env_def f32_arith round32_0 round32_1 round32_half_pi)

lemma f32_half_right_angle:
  "calculateAngle f32_env (Vec3 1 0 0) (Vec3 1 1 0) = F32 (13176795 / 16777216)"
  by (simp add: calculateAngle_def Let_def dot_def lengthSquared_def std_min_def std_max_def
      f32_env_def f32_arith round32_0 round32_1 round32_2 round32_sqrt_2 round32_inverse_sqrt_2
      round32_arccos_half_right_angle)

lemma f32_HALF_PI: "HALF_PI f32_env = F32 (6588397 / 4194304)"
  by (simp add: f32_env_def)

lemma float_below_half_pi: "(6588397 / 4194304 :: real) < pi / 2"
  using half_pi_between(1) by simp

lemma threshold_at_computed_right_angle:
  fixes E :: "'f::{linorder,plus,times,inverse,zero,one,uminus} float_env"
  assumes "HALF_PI E = acos_f E 0"
  shows "countAcute E [v1, v2] = (if calculateAngle E v1 v2 < acos_f E 0 then 1 else 0)"
  using assms by simp

section \<open>The unit square\<close>

lemma others_4:
  "others 4 0 = [1, 2, 3]" "others 4 1 = [0, 2, 3]" "others 4 2 = [0, 1, 3]" "others 4 3 = [0, 1, 2]"
  by (simp_all add: others_def upto_rec1)

lemma unit_square_vertices:
  "vertexOf unit_square 0 0 = Vec3 0 0 0"
  "vertexOf unit_square 0 1 = Vec3 1 0 0"
  "vertexOf unit_square 0 2 = Vec3 0 1 0"
  "vertexOf unit_square 0 3 = Vec3 1 1 0"
  by (simp_all add: vertexOf_def unit_square_def to_size_t_def)

lemma unit_square_nearest:
  "nearest_spec unit_square 0 4 6 0 = [(1, 1), (1, 2), (2, 3)]"
  "nearest_spec unit_square 0 4 6 1 = [(1, 0), (1, 3), (2, 2)]"
  "nearest_spec unit_square 0 4 6 2 = [(1, 0), (1, 3), (2, 1)]"
  "nearest_spec unit_square 0 4 6 3 = [(1, 1), (1, 2), (2, 0)]"
  by (simp_all add: nearest_spec_def others_4 distanceSquared_def unit_square_vertices
      lengthSquared_def vec_minus_def)

lemma unit_square_counts:
  "acute_pair_count real_env unit_square 0 4 6 0 = 2"
  "acute_pair_count real_env unit_square 0 4 6 1 = 2"
  "acute_pair_count real_env unit_square 0 4 6 2 = 2"
  "acute_pair_count real_env unit_square 0 4 6 3 = 2"
  by (simp_all add: acute_pair_count_def unit_square_nearest unit_square_vertices is_acute_def
      vec_minus_def right_angle_not_acute(2) half_right_angle_acute(2) dot_def lengthSquared_def)

lemma unit_square_score: "score_spec real_env unit_square 0 4 6 = 2"
  by (simp add: score_spec_def total_acute_def upto_rec1 unit_square_counts)

lemma unit_square_wellformed: "wellformed unit_square [0, 12]"
  by (simp add: wellformed_def unit_square_def INT_MAX_def)

lemma unit_square_full_pass: "calculateCellAcuteness real_env unit_square [0, 12] 6 = Some [2]"
proof -
  have "(int (length unit_square) div 3) * (6 * (6 - 1) div 2) \<le> INT_MAX"
    by (simp add: unit_square_def INT_MAX_def)
  then show ?thesis
    using calculateCellAcuteness_total[OF unit_square_wellformed, of 6 real_env]
    by (simp add: int_div_def unit_square_score)
qed

lemma unit_square_in_bounds: "cell_in_bounds unit_square 0 4"
  by (simp add: cell_in_bounds_def unit_square_def INT_MAX_def)

lemma unit_square_vertexAcute:
  "vertexAcute real_env unit_square 0 4 6 0 = Some 2"
  "vertexAcute real_env unit_square 0 4 6 1 = Some 2"
  "vertexAcute real_env unit_square 0 4 6 2 = Some 2"
  "vertexAcute real_env unit_square 0 4 6 3 = Some 2"
  by (simp_all add: vertexAcute_total[OF unit_square_in_bounds] unit_square_counts)


lemma unit_square_update: "updateCellAcuteness unit_square [0, 12] [0] [2] = Some [0]"
  by (simp add: updateCellAcuteness_def updateCell_def size_minus_1_def to_size_t_def
      vec_at_def store_def in_int_def INT_MIN_def INT_MAX_def int_div_def)

section \<open>The unit square under the named facts\<close>

text \<open>
  The evaluation of the unit square from the facts of \<open>unit_square_facts\<close> alone: the squared
  distances are \<open>1\<close>, \<open>1\<close> and \<open>1 + 1\<close>, the adjacent corners come first (in the order of
  their indices), the pair of the two adjacent corners has the cosine \<open>0 / 1\<close> and each pair
  with the diagonal corner the cosine \<open>1 / sqrt (1 + 1)\<close>.
\<close>

lemma unit_square_cell_vertices:
  "vertexOf unit_square_cell 0 0 = Vec3 0 0 0"
  "vertexOf unit_square_cell 0 1 = Vec3 1 0 0"
  "vertexOf unit_square_cell 0 2 = Vec3 0 1 0"
  "vertexOf unit_square_cell 0 3 = Vec3 1 1 0"
  by (simp_all add: vertexOf_def unit_square_cell_def to_size_t_def)

lemma facts_order:
  fixes E :: "'f::{linorder,plus,minus,times,inverse,zero,one,uminus} float_env"
  assumes "unit_square_facts E"
  shows "(1::'f) \<le> 1 + 1" "\<not> (1::'f) + 1 \<le> 1" "\<not> (1::'f) + 1 < 1" "(1::'f) \<noteq> 0" "(1::'f) + 1 \<noteq> 0"
proof -
  have a: "(0::'f) < 1" "(1::'f) < 1 + 1"
    using assms by (simp_all add: unit_square_facts_def)
  show "(1::'f) \<le> 1 + 1" "\<not> (1::'f) + 1 \<le> 1" "\<not> (1::'f) + 1 < 1" "(1::'f) \<noteq> 0"
    using a by auto
  have "(0::'f) < 1 + 1" using a by (rule less_trans)
  then show "(1::'f) + 1 \<noteq> 0" by auto
qed

lemma unit_square_cell_nearest:
  fixes E :: "'f::{linorder,plus,minus,times,inverse,zero,one,uminus} float_env"
  assumes "unit_square_facts E"
  shows "nearest_spec (unit_square_cell :: 'f list) 0 4 6 0 = [(1, 1), (1, 2), (1 + 1, 3)]"
    and "nearest_spec (unit_square_cell :: 'f list) 0 4 6 1 = [(1, 0), (1, 3), (1 + 1, 2)]"
    and "nearest_spec (unit_square_cell :: 'f list) 0 4 6 2 = [(1, 0), (1, 3), (1 + 1, 1)]"
    and "nearest_spec (unit_square_cell :: 'f list) 0 4 6 3 = [(1, 1), (1, 2), (1 + 1, 0)]"
proof -
  have f: "(0::'f) - 0 = 0" "(1::'f) - 0 = 1" "(0::'f) - 1 = - 1" "(1::'f) - 1 = 0"
     "(0::'f) * 0 = 0" "(1::'f) * 1 = 1" "(- 1) * (- 1) = (1::'f)"
     "(0::'f) + 0 = 0" "(1::'f) + 0 = 1" "(0::'f) + 1 = 1" "((1::'f) + 1) + 0 = 1 + 1"
    using assms by (simp_all add: unit_square_facts_def)
  note o = facts_order[OF assms]
  show "nearest_spec (unit_square_cell :: 'f list) 0 4 6 0 = [(1, 1), (1, 2), (1 + 1, 3)]"
    and "nearest_spec (unit_square_cell :: 'f list) 0 4 6 1 = [(1, 0), (1, 3), (1 + 1, 2)]"
    and "nearest_spec (unit_square_cell :: 'f list) 0 4 6 2 = [(1, 0), (1, 3), (1 + 1, 1)]"
    and "nearest_spec (unit_square_cell :: 'f list) 0 4 6 3 = [(1, 1), (1, 2), (1 + 1, 0)]"
    by (simp_all add: nearest_spec_def others_4 distanceSquared_def unit_square_cell_vertices
        lengthSquared_def vec_minus_def f o)
qed

lemma facts_right_angle:
  fixes E :: "'f::{linorder,plus,minus,times,inverse,zero,one,uminus} float_env"
  assumes "unit_square_facts E" "dot u w = 0" "lengthSquared u = 1" "lengthSquared w = 1"
  shows "calculateAngle E u w = acos_f E 0" and "\<not> calculateAngle E u w < HALF_PI E"
proof -
  have f: "(1::'f) * 1 = 1" "sqrt_f E 1 = 1" "(0::'f) / 1 = 0" "(- 1::'f) < 0" "(0::'f) < 1"
    "\<not> acos_f E 0 < HALF_PI E"
    using assms(1) by (simp_all add: unit_square_facts_def)
  note o = facts_order[OF assms(1)]
  show a: "calculateAngle E u w = acos_f E 0"
    using assms(2-4) f o by (simp add: calculateAngle_def Let_def std_min_def std_max_def)
  show "\<not> calculateAngle E u w < HALF_PI E"
    unfolding a using f by simp
qed

lemma facts_half_right_angle:
  fixes E :: "'f::{linorder,plus,minus,times,inverse,zero,one,uminus} float_env"
  assumes "unit_square_facts E" "dot u w = 1" "lengthSquared u = 1" "lengthSquared w = 1 + 1"
  shows "calculateAngle E u w = acos_f E (1 / sqrt_f E (1 + 1))"
    and "calculateAngle E u w < HALF_PI E"
proof -
  have f: "(1::'f) * (1 + 1) = 1 + 1" "- 1 < 1 / sqrt_f E (1 + 1)" "1 / sqrt_f E (1 + 1) < 1"
    "acos_f E (1 / sqrt_f E (1 + 1)) < HALF_PI E"
    using assms(1) by (simp_all add: unit_square_facts_def)
  note o = facts_order[OF assms(1)]
  show a: "calculateAngle E u w = acos_f E (1 / sqrt_f E (1 + 1))"
    using assms(2-4) f o by (simp add: calculateAngle_def Let_def std_min_def std_max_def)
  show "calculateAngle E u w < HALF_PI E"
    unfolding a using f by simp
qed

lemma unit_square_cell_counts:
  fixes E :: "'f::{linorder,plus,minus,times,inverse,zero,one,uminus} float_env"
  assumes "unit_square_facts E"
  shows "acute_pair_count E unit_square_cell 0 4 6 0 = 2"
    and "acute_pair_count E unit_square_cell 0 4 6 1 = 2"
    and "acute_pair_count E unit_square_cell 0 4 6 2 = 2"
    and "acute_pair_count E unit_square_cell 0 4 6 3 = 2"
proof -
  have f: "(0::'f) - 0 = 0" "(1::'f) - 0 = 1" "(0::'f) - 1 = - 1" "(1::'f) - 1 = 0"
     "(0::'f) * 0 = 0" "(1::'f) * 1 = 1" "(- 1) * (- 1) = (1::'f)"
     "(1::'f) * 0 = 0" "(0::'f) * 1 = 0" "(- 1) * (0::'f) = 0" "(0::'f) * (- 1) = 0"
     "(0::'f) + 0 = 0" "(1::'f) + 0 = 1" "(0::'f) + 1 = 1" "((1::'f) + 1) + 0 = 1 + 1"
    using assms by (simp_all add: unit_square_facts_def)
  note r = facts_right_angle(2)[OF assms] and h = facts_half_right_angle(2)[OF assms]
  show "acute_pair_count E unit_square_cell 0 4 6 0 = 2"
    and "acute_pair_count E unit_square_cell 0 4 6 1 = 2"
    and "acute_pair_count E unit_square_cell 0 4 6 2 = 2"
    and "acute_pair_count E unit_square_cell 0 4 6 3 = 2"
    by (simp_all add: acute_pair_count_def unit_square_cell_nearest[OF assms]
        unit_square_cell_vertices is_acute_def vec_minus_def r h dot_def lengthSquared_def f)
qed


lemma unit_square_cell_wellformed: "wellformed (unit_square_cell :: 'f::{zero,one} list) [0, 12]"
  by (simp add: wellformed_def unit_square_cell_def INT_MAX_def)

lemma unit_square_cell_in_bounds: "cell_in_bounds (unit_square_cell :: 'f::{zero,one} list) 0 4"
  by (simp add: cell_in_bounds_def unit_square_cell_def INT_MAX_def)

lemma unit_square_cell_total:
  fixes E :: "'f::{linorder,plus,minus,times,inverse,zero,one,uminus} float_env"
  assumes "unit_square_facts E"
  shows "total_acute E unit_square_cell 0 4 6 = 8"
  by (simp add: total_acute_def upto_rec1 unit_square_cell_counts[OF assms])

lemma unit_square_cell_full_pass:
  fixes E :: "'f::{linorder,plus,minus,times,inverse,zero,one,uminus} float_env"
  assumes "unit_square_facts E"
  shows "calculateCellAcuteness E unit_square_cell [0, 12] 6 = Some [2]"
proof -
  have "(int (length (unit_square_cell :: 'f list)) div 3) * (6 * (6 - 1) div 2) \<le> INT_MAX"
    by (simp add: unit_square_cell_def INT_MAX_def)
  then show ?thesis
    using calculateCellAcuteness_total[OF unit_square_cell_wellformed, of 6 E]
    by (simp add: int_div_def score_spec_def unit_square_cell_total[OF assms])
qed

lemma unit_square_cell_vertexAcute:
  fixes E :: "'f::{linorder,plus,minus,times,inverse,zero,one,uminus} float_env"
  assumes "unit_square_facts E"
  shows "vertexAcute E unit_square_cell 0 4 6 0 = Some 2"
    and "vertexAcute E unit_square_cell 0 4 6 1 = Some 2"
    and "vertexAcute E unit_square_cell 0 4 6 2 = Some 2"
    and "vertexAcute E unit_square_cell 0 4 6 3 = Some 2"
  by (simp_all add: vertexAcute_total[OF unit_square_cell_in_bounds] unit_square_cell_counts[OF assms])

lemma real_env_facts: "unit_square_facts real_env"
proof -
  have "1 / sqrt 2 < (1::real)"
    by simp
  moreover have "- 1 < 1 / sqrt (2::real)"
    by (rule less_trans[of _ 0]) simp_all
  moreover have "\<not> arccos 0 < HALF_PI real_env"
    using HALF_PI_less_half_pi by simp
  moreover have "arccos (1 / sqrt 2) < HALF_PI real_env"
    using quarter_pi_less_HALF_PI by (simp add: arccos_one_over_sqrt_2)
  ultimately show ?thesis
    by (simp add: unit_square_facts_def real_env_def)
qed

section \<open>The incremental pass against the full pass\<close>

text \<open>
  Claim C1. The incremental pass is meant to write, for every listed cell, the score that the
  full pass computes for it. The source does not do so: on the unit square (one cell of four
  vertices, offsets \<open>[0, 12]\<close>, \<open>K = 6\<close>) the full pass returns the score table \<open>[2]\<close>, and
  the incremental pass, run on that table with the cell listed as changed, returns \<open>[0]\<close>.
\<close>

theorem update_diverges_from_full_pass:
  "calculateCellAcuteness real_env unit_square [0, 12] 6 = Some [2] \<and>
   updateCellAcuteness unit_square [0, 12] [0] [2] = Some [0]"
  using unit_square_full_pass unit_square_update by simp

section \<open>The score of a cell\<close>



section \<open>The threshold\<close>

text \<open>
  Claim C5. The test of lines 102 to 105 is the strict comparison of the computed angle with
  the constant \<open>HALF_PI\<close>: for every floating-point environment a pair is counted exactly
  when its computed angle is below \<open>HALF_PI\<close> (the count of a list of neighbour vectors is the
  number of its unordered pairs with such an angle), so a computed angle equal to \<open>HALF_PI\<close>
  or above it is not counted and every computed angle below it is. In single precision \<open>HALF_PI\<close> is
  the float \<open>6588397 / 4194304\<close>, which is below \<open>pi / 2\<close> and less than one spacing of the
  floats (\<open>2 ^ - 23\<close>) away from it; hence no pair with a computed angle of \<open>pi / 2\<close> or more
  is counted.
\<close>

theorem acute_threshold_is_strict:
  fixes E :: "'f::{linorder,plus,times,inverse,zero,one,uminus} float_env"
    and u1 u2 :: "f32 Vec3"
  shows "countAcute E [v1, v2] = (if calculateAngle E v1 v2 < HALF_PI E then 1 else 0) \<and>
         countAcute E vecs =
           int (length (filter (\<lambda>(a, b). calculateAngle E a b < HALF_PI E)
                  (unordered_pairs vecs))) \<and>
         (calculateAngle E v1 v2 = HALF_PI E \<longrightarrow> countAcute E [v1, v2] = 0) \<and>
         (HALF_PI E < calculateAngle E v1 v2 \<longrightarrow> countAcute E [v1, v2] = 0) \<and>
         (calculateAngle E v1 v2 < HALF_PI E \<longrightarrow> countAcute E [v1, v2] = 1) \<and>
         value_of (HALF_PI f32_env) = 6588397 / 4194304 \<and>
         value_of (HALF_PI f32_env) < pi / 2 \<and>
         pi / 2 < value_of (HALF_PI f32_env) + 1 / 8388608 \<and>
         (pi / 2 \<le> value_of (calculateAngle f32_env u1 u2) \<longrightarrow>
            countAcute f32_env [u1, u2] = 0)"
proof -
  have h: "value_of (HALF_PI f32_env) = 6588397 / 4194304"
    by (simp add: f32_env_def)
  have up: "pi / 2 < value_of (HALF_PI f32_env) + 1 / 8388608"
    unfolding h using half_pi_between(2) by simp
  have "\<not> calculateAngle f32_env u1 u2 < HALF_PI f32_env"
    if "pi / 2 \<le> value_of (calculateAngle f32_env u1 u2)"
    using that float_below_half_pi unfolding less_f32_def h by linarith
  then show ?thesis
    using h up float_below_half_pi countAcute_pairs[of E vecs] by auto
qed

text \<open>
  In single precision: the pair \<open>(1, 0, 0)\<close>, \<open>(1, 1, 0)\<close> at half a right angle is counted;
  the pair \<open>(1, 0, 0)\<close>, \<open>(2 ^ - 24, 1, 0)\<close>, whose computed angle is \<open>HALF_PI\<close>, is not; the
  perpendicular pair \<open>(1, 0, 0)\<close>, \<open>(0, 1, 0)\<close>, whose computed angle is above \<open>pi / 2\<close>, is
  not.
\<close>

theorem acute_threshold_is_strict_witness:
  "calculateAngle f32_env (Vec3 1 0 0) (Vec3 1 1 0) < HALF_PI f32_env \<and>
   countAcute f32_env [Vec3 1 0 0, Vec3 1 1 0] = 1 \<and>
   calculateAngle f32_env (Vec3 1 0 0) (Vec3 (F32 (1 / 16777216)) 1 0) = HALF_PI f32_env \<and>
   countAcute f32_env [Vec3 1 0 0, Vec3 (F32 (1 / 16777216)) 1 0] = 0 \<and>
   HALF_PI f32_env < calculateAngle f32_env (Vec3 1 0 0) (Vec3 0 1 0) \<and>
   pi / 2 \<le> value_of (calculateAngle f32_env (Vec3 1 0 0) (Vec3 0 1 0)) \<and>
   countAcute f32_env [Vec3 1 0 0, Vec3 0 1 0] = 0"
proof -
  have a: "calculateAngle f32_env (Vec3 1 0 0) (Vec3 1 1 0) < HALF_PI f32_env"
    by (simp add: f32_half_right_angle f32_HALF_PI less_f32_def)
  have b: "calculateAngle f32_env (Vec3 1 0 0) (Vec3 (F32 (1 / 16777216)) 1 0) = HALF_PI f32_env"
    by (simp add: near_right_angle(2) f32_HALF_PI)
  have c: "HALF_PI f32_env < calculateAngle f32_env (Vec3 1 0 0) (Vec3 0 1 0)"
    by (simp add: f32_right_angle f32_HALF_PI less_f32_def)
  have d: "pi / 2 \<le> value_of (calculateAngle f32_env (Vec3 1 0 0) (Vec3 0 1 0))"
    using half_pi_between(2) by (simp add: f32_right_angle)
  show ?thesis
    using a b c d
      acute_threshold_is_strict[where E = f32_env and ?v1.0 = "Vec3 1 0 0"
        and ?v2.0 = "Vec3 1 1 0" and ?u1.0 = "Vec3 1 0 0" and ?u2.0 = "Vec3 0 1 0"]
      acute_threshold_is_strict[where E = f32_env and ?v1.0 = "Vec3 1 0 0"
        and ?v2.0 = "Vec3 (F32 (1 / 16777216)) 1 0"]
      acute_threshold_is_strict[where E = f32_env and ?v1.0 = "Vec3 1 0 0"
        and ?v2.0 = "Vec3 0 1 0"]
    by simp
qed

text \<open>
  The claim as the specification words it fails in single precision. The pair \<open>(1, 0, 0)\<close>,
  \<open>(2 ^ - 24, 1, 0)\<close> has the computed angle \<open>6588397 / 4194304\<close>: this is below \<open>pi / 2\<close> by
  less than one spacing of the floats, and below the angle computed for a perpendicular
  pair, and the pair is not counted.
\<close>

theorem angle_below_right_angle_not_acute:
  "value_of (calculateAngle f32_env (Vec3 1 0 0) (Vec3 (F32 (1 / 16777216)) 1 0))
     = 6588397 / 4194304 \<and>
   (6588397 / 4194304 :: real) < pi / 2 \<and>
   pi / 2 - 6588397 / 4194304 < (1 / 8388608 :: real) \<and>
   calculateAngle f32_env (Vec3 1 0 0) (Vec3 (F32 (1 / 16777216)) 1 0)
     < calculateAngle f32_env (Vec3 1 0 0) (Vec3 0 1 0) \<and>
   countAcute f32_env [Vec3 1 0 0, Vec3 (F32 (1 / 16777216)) 1 0] = 0"
proof -
  have "pi / 2 - 6588397 / 4194304 < (1 / 8388608 :: real)"
    using half_pi_between(2) by simp
  then show ?thesis
    using float_below_half_pi
    by (simp add: near_right_angle(2) f32_right_angle f32_HALF_PI less_f32_def)
qed

section \<open>The zero vector and the clamp\<close>

text \<open>
  Claim C6. For every floating-point environment: when the computed squared length of one
  of the two vectors is zero, \<open>calculateAngle\<close> returns 0, and the pair is counted as acute
  whenever the threshold is positive; the zero vector is such a vector (given \<open>0 * 0 = 0\<close> and
  \<open>0 + 0 = 0\<close> in the type of the floats). When neither computed squared length is zero
  (and \<open>- 1\<close> is not above \<open>1\<close>), the result is the inverse cosine of the quotient
  \<open>cosTheta\<close> clamped to the interval from \<open>- 1\<close> to \<open>1\<close>: of \<open>- 1\<close> when the quotient is below
  \<open>- 1\<close>, of the quotient itself when it lies in the interval, of \<open>1\<close> when it is above \<open>1\<close>.
\<close>

theorem zero_length_is_acute_and_cosine_clamped:
  fixes E :: "'f::{linorder,plus,times,inverse,zero,one,uminus} float_env"
  shows "(lengthSquared v1 = 0 \<or> lengthSquared v2 = 0 \<longrightarrow>
            calculateAngle E v1 v2 = 0 \<and>
            (0 < HALF_PI E \<longrightarrow> calculateAngle E v1 v2 < HALF_PI E \<and> countAcute E [v1, v2] = 1)) \<and>
         ((0::'f) * 0 = 0 \<and> (0::'f) + 0 = 0 \<longrightarrow>
            lengthSquared (Vec3 0 0 0 :: 'f Vec3) = 0 \<and>
            calculateAngle E (Vec3 0 0 0) v2 = 0 \<and> calculateAngle E v1 (Vec3 0 0 0) = 0) \<and>
         (lengthSquared v1 \<noteq> 0 \<and> lengthSquared v2 \<noteq> 0 \<and> (- 1 :: 'f) \<le> 1 \<longrightarrow>
            (cosTheta E v1 v2 < - 1 \<longrightarrow> calculateAngle E v1 v2 = acos_f E (- 1)) \<and>
            (- 1 \<le> cosTheta E v1 v2 \<and> cosTheta E v1 v2 \<le> 1 \<longrightarrow>
               calculateAngle E v1 v2 = acos_f E (cosTheta E v1 v2)) \<and>
            (1 < cosTheta E v1 v2 \<longrightarrow> calculateAngle E v1 v2 = acos_f E 1))"
proof -
  have z: "lengthSquared (Vec3 0 0 0 :: 'f Vec3) = 0" if "(0::'f) * 0 = 0" "(0::'f) + 0 = 0"
    using that by (simp add: lengthSquared_def)
  have a: "calculateAngle E v1 v2 = 0" if "lengthSquared v1 = 0 \<or> lengthSquared v2 = 0"
    for v1 v2 :: "'f Vec3"
    using that by (auto simp: calculateAngle_def Let_def)
  have c: "calculateAngle E v1 v2 = acos_f E (std_max (- 1) (std_min 1 (cosTheta E v1 v2)))"
    if "lengthSquared v1 \<noteq> 0" "lengthSquared v2 \<noteq> 0"
    using that by (simp add: calculateAngle_def Let_def cosTheta_def)
  have lo: "std_max (- 1) (std_min 1 x) = - 1" if "(- 1 :: 'f) \<le> 1" "x < - 1" for x :: 'f
    using that by (auto simp: std_max_def std_min_def)
  have mid: "std_max (- 1) (std_min 1 x) = x" if "- 1 \<le> x" "x \<le> 1" for x :: 'f
    using that by (auto simp: std_max_def std_min_def)
  have hi: "std_max (- 1) (std_min 1 x) = 1" if "(- 1 :: 'f) \<le> 1" "1 < x" for x :: 'f
    using that by (auto simp: std_max_def std_min_def)
  show ?thesis
    using z a[of v1 v2] a[of "Vec3 0 0 0" v2] a[of v1 "Vec3 0 0 0"] c lo mid hi
    by auto
qed

text \<open>
  In single precision: the zero vector against \<open>(1, 0, 0)\<close> gives the angle 0 and one acute
  pair; for \<open>(1, 0, 0)\<close> and \<open>(2 ^ - 24, 1, 0)\<close> the quotient \<open>2 ^ - 24\<close> is passed unchanged; for
  the parallel vectors \<open>(0, 7, 0)\<close> and \<open>(0, 0.7f, 0)\<close> the quotient exceeds \<open>1\<close> by rounding and
  the inverse cosine is taken of \<open>1\<close>; with the second vector reversed the quotient is below
  \<open>- 1\<close> and the inverse cosine is taken of \<open>- 1\<close>.
\<close>

theorem zero_length_is_acute_and_cosine_clamped_witness:
  "lengthSquared (Vec3 0 0 0 :: f32 Vec3) = 0 \<and> (0::f32) * 0 = 0 \<and> (0::f32) + 0 = 0 \<and>
   0 < HALF_PI f32_env \<and>
   calculateAngle f32_env (Vec3 0 0 0) (Vec3 1 0 0) = 0 \<and>
   calculateAngle f32_env (Vec3 1 0 0) (Vec3 0 0 0) = 0 \<and>
   countAcute f32_env [Vec3 0 0 0, Vec3 1 0 0] = 1 \<and>
   lengthSquared (Vec3 1 0 0 :: f32 Vec3) \<noteq> 0 \<and>
   lengthSquared (Vec3 (F32 (1 / 16777216)) 1 0) \<noteq> 0 \<and>
   lengthSquared (Vec3 0 (F32 7) 0) \<noteq> 0 \<and>
   lengthSquared (Vec3 0 (F32 (11744051 / 16777216)) 0) \<noteq> 0 \<and>
   lengthSquared (Vec3 0 (F32 (- (11744051 / 16777216))) 0) \<noteq> 0 \<and>
   (- 1 :: f32) \<le> 1 \<and>
   - 1 \<le> cosTheta f32_env (Vec3 1 0 0) (Vec3 (F32 (1 / 16777216)) 1 0) \<and>
   cosTheta f32_env (Vec3 1 0 0) (Vec3 (F32 (1 / 16777216)) 1 0) \<le> 1 \<and>
   calculateAngle f32_env (Vec3 1 0 0) (Vec3 (F32 (1 / 16777216)) 1 0)
     = acos_f f32_env (F32 (1 / 16777216)) \<and>
   1 < cosTheta f32_env (Vec3 0 (F32 7) 0) (Vec3 0 (F32 (11744051 / 16777216)) 0) \<and>
   calculateAngle f32_env (Vec3 0 (F32 7) 0) (Vec3 0 (F32 (11744051 / 16777216)) 0)
     = acos_f f32_env 1 \<and>
   cosTheta f32_env (Vec3 0 (F32 7) 0) (Vec3 0 (F32 (- (11744051 / 16777216))) 0) < - 1 \<and>
   calculateAngle f32_env (Vec3 0 (F32 7) 0) (Vec3 0 (F32 (- (11744051 / 16777216))) 0)
     = acos_f f32_env (- 1)"
proof -
  have z: "lengthSquared (Vec3 0 0 0 :: f32 Vec3) = 0" "(0::f32) * 0 = 0" "(0::f32) + 0 = 0"
    "0 < HALF_PI f32_env" "(- 1 :: f32) \<le> 1"
    by (simp_all add: lengthSquared_def f32_arith round32_0 f32_env_def)
  have n: "lengthSquared (Vec3 1 0 0 :: f32 Vec3) \<noteq> 0"
    "lengthSquared (Vec3 (F32 (1 / 16777216)) 1 0) \<noteq> 0"
    by (simp_all add: lengthSquared_def f32_arith round32_0 round32_1 round32_m48 round32_1_plus)
  have s: "lengthSquared (Vec3 0 (F32 7) 0) \<noteq> 0"
    "lengthSquared (Vec3 0 (F32 (11744051 / 16777216)) 0) \<noteq> 0"
    "lengthSquared (Vec3 0 (F32 (- (11744051 / 16777216))) 0) \<noteq> 0"
    using seven_tenths(1-3) by (simp_all add: zero_f32_def)
  have m: "- 1 \<le> cosTheta f32_env (Vec3 1 0 0) (Vec3 (F32 (1 / 16777216)) 1 0)"
    "cosTheta f32_env (Vec3 1 0 0) (Vec3 (F32 (1 / 16777216)) 1 0) \<le> 1"
    unfolding near_right_angle(1) by (simp_all add: f32_arith)
  have o: "1 < cosTheta f32_env (Vec3 0 (F32 7) 0) (Vec3 0 (F32 (11744051 / 16777216)) 0)"
    "cosTheta f32_env (Vec3 0 (F32 7) 0) (Vec3 0 (F32 (- (11744051 / 16777216))) 0) < - 1"
    unfolding seven_tenths(4,5) by (simp_all add: f32_arith)
  show ?thesis
    using z n s m o
      zero_length_is_acute_and_cosine_clamped[of "Vec3 0 0 0" "Vec3 1 0 0" f32_env]
      zero_length_is_acute_and_cosine_clamped[of "Vec3 1 0 0" "Vec3 0 0 0" f32_env]
      zero_length_is_acute_and_cosine_clamped[of "Vec3 1 0 0" "Vec3 (F32 (1 / 16777216)) 1 0" f32_env]
      zero_length_is_acute_and_cosine_clamped[of "Vec3 0 (F32 7) 0"
        "Vec3 0 (F32 (11744051 / 16777216)) 0" f32_env]
      zero_length_is_acute_and_cosine_clamped[of "Vec3 0 (F32 7) 0"
        "Vec3 0 (F32 (- (11744051 / 16777216))) 0" f32_env]
    by (simp add: near_right_angle(1))
qed

text \<open>
  The zero test is on the computed squared length, so it also holds of vectors that are not
  zero: in single precision the squared length of \<open>(2 ^ - 76, 0, 0)\<close> underflows to zero. The
  pair of this vector with \<open>(0, 1, 0)\<close> gets the angle 0 without any inverse cosine and is
  counted as acute, although neither vector has zero length and the two are perpendicular
  (in exact arithmetic the angle is \<open>pi / 2\<close> and the pair is not counted).
\<close>

theorem underflow_counts_as_zero_length:
  "(0::real) < 1 / 2 ^ 76 \<and>
   Vec3 (F32 (1 / 2 ^ 76)) 0 0 \<noteq> Vec3 0 0 0 \<and>
   lengthSquared (Vec3 (F32 (1 / 2 ^ 76)) 0 0) = 0 \<and>
   lengthSquared (Vec3 0 1 0 :: f32 Vec3) \<noteq> 0 \<and>
   calculateAngle f32_env (Vec3 (F32 (1 / 2 ^ 76)) 0 0) (Vec3 0 1 0) = 0 \<and>
   countAcute f32_env [Vec3 (F32 (1 / 2 ^ 76)) 0 0, Vec3 0 1 0] = 1 \<and>
   calculateAngle real_env (Vec3 (1 / 2 ^ 76) 0 0) (Vec3 0 1 0) = pi / 2 \<and>
   countAcute real_env [Vec3 (1 / 2 ^ 76) 0 0, Vec3 0 1 0] = 0"
proof -
  have r: "dot (Vec3 (1 / 2 ^ 76) 0 0) (Vec3 0 1 0 :: real Vec3) = 0"
    "lengthSquared (Vec3 (1 / 2 ^ 76) 0 0 :: real Vec3) \<noteq> 0"
    "lengthSquared (Vec3 0 1 0 :: real Vec3) \<noteq> 0"
    by (simp_all add: dot_def lengthSquared_def)
  have n: "Vec3 (F32 (1 / 2 ^ 76)) 0 0 \<noteq> Vec3 0 0 0"
    "lengthSquared (Vec3 0 1 0 :: f32 Vec3) \<noteq> 0"
    by (simp_all add: lengthSquared_def f32_arith round32_0 round32_1)
  have "(0::f32) < HALF_PI f32_env"
    by (simp add: f32_env_def f32_arith)
  then have "calculateAngle f32_env (Vec3 (F32 (1 / 2 ^ 76)) 0 0) (Vec3 0 1 0) < HALF_PI f32_env"
    by (simp only: underflow_angle(2))
  then have c: "countAcute f32_env [Vec3 (F32 (1 / 2 ^ 76)) 0 0, Vec3 0 1 0] = 1"
    by simp
  have d: "countAcute real_env [Vec3 (1 / 2 ^ 76) 0 0, Vec3 0 1 0] = 0"
    using right_angle_not_acute(2)[OF r] by simp
  have p: "(0::real) < 1 / 2 ^ 76"
    by simp
  show ?thesis
    by (intro conjI p n underflow_angle c d right_angle_not_acute(1)[OF r])
qed

section \<open>Neighbour selection\<close>



section \<open>Scenario A\<close>

text \<open>
  Claim C8. For every floating-point environment in which the facts of \<open>unit_square_facts\<close>
  hold (the operations on the coordinates \<open>0\<close> and \<open>1\<close> are exact, the inverse cosine of \<open>0\<close>
  is not below \<open>HALF_PI\<close>, the quotient \<open>1 / sqrt (1 + 1)\<close> lies strictly between \<open>- 1\<close> and \<open>1\<close>
  and its inverse cosine is below \<open>HALF_PI\<close>), the full pass on the unit square with \<open>K = 6\<close>
  returns the score 2: every vertex contributes 2 acute pairs, the total is 8 and
  \<open>8 / 4 = 2\<close>. At the corner \<open>(0, 0, 0)\<close> the three neighbour vectors have 2 acute pairs: the
  pair of the two adjacent corners has the angle \<open>acos 0\<close>, which is not below the threshold,
  and each pair of an adjacent corner with the diagonal corner has the angle
  \<open>acos (1 / sqrt (1 + 1))\<close>, which is.
\<close>

theorem unit_square_scenario:
  fixes E :: "'f::{linorder,plus,minus,times,inverse,zero,one,uminus} float_env"
  assumes "unit_square_facts E"
  shows "calculateCellAcuteness E unit_square_cell [0, 12] 6 = Some [2] \<and>
         vertexAcute E unit_square_cell 0 4 6 0 = Some 2 \<and>
         vertexAcute E unit_square_cell 0 4 6 1 = Some 2 \<and>
         vertexAcute E unit_square_cell 0 4 6 2 = Some 2 \<and>
         vertexAcute E unit_square_cell 0 4 6 3 = Some 2 \<and>
         total_acute E unit_square_cell 0 4 6 = 8 \<and>
         int_div 8 4 = 2 \<and>
         countAcute E [Vec3 1 0 0, Vec3 0 1 0, Vec3 1 1 0] = 2 \<and>
         calculateAngle E (Vec3 1 0 0) (Vec3 0 1 0) = acos_f E 0 \<and>
         \<not> calculateAngle E (Vec3 1 0 0) (Vec3 0 1 0) < HALF_PI E \<and>
         calculateAngle E (Vec3 1 0 0) (Vec3 1 1 0) = acos_f E (1 / sqrt_f E (1 + 1)) \<and>
         calculateAngle E (Vec3 1 0 0) (Vec3 1 1 0) < HALF_PI E \<and>
         calculateAngle E (Vec3 0 1 0) (Vec3 1 1 0) = acos_f E (1 / sqrt_f E (1 + 1)) \<and>
         calculateAngle E (Vec3 0 1 0) (Vec3 1 1 0) < HALF_PI E"
proof -
  have f: "(0::'f) * 0 = 0" "(1::'f) * 1 = 1" "(1::'f) * 0 = 0" "(0::'f) * 1 = 0"
    "(0::'f) + 0 = 0" "(1::'f) + 0 = 1" "(0::'f) + 1 = 1" "((1::'f) + 1) + 0 = 1 + 1"
    using assms by (simp_all add: unit_square_facts_def)
  have r: "dot (Vec3 1 0 0) (Vec3 0 1 0 :: 'f Vec3) = 0"
    "lengthSquared (Vec3 1 0 0 :: 'f Vec3) = 1" "lengthSquared (Vec3 0 1 0 :: 'f Vec3) = 1"
    by (simp_all add: dot_def lengthSquared_def f)
  have h1: "dot (Vec3 1 0 0) (Vec3 1 1 0 :: 'f Vec3) = 1"
    "lengthSquared (Vec3 1 0 0 :: 'f Vec3) = 1" "lengthSquared (Vec3 1 1 0 :: 'f Vec3) = 1 + 1"
    by (simp_all add: dot_def lengthSquared_def f)
  have h2: "dot (Vec3 0 1 0) (Vec3 1 1 0 :: 'f Vec3) = 1"
    "lengthSquared (Vec3 0 1 0 :: 'f Vec3) = 1" "lengthSquared (Vec3 1 1 0 :: 'f Vec3) = 1 + 1"
    by (simp_all add: dot_def lengthSquared_def f)
  note a = facts_right_angle[OF assms r] facts_half_right_angle[OF assms h1]
    facts_half_right_angle[OF assms h2]
  have c: "countAcute E [Vec3 1 0 0, Vec3 0 1 0, Vec3 1 1 0] = 2"
    using a(2,4,6) by simp
  have "int_div 8 4 = 2"
    by (simp add: int_div_def)
  then show ?thesis
    using unit_square_cell_full_pass[OF assms] unit_square_cell_vertexAcute[OF assms]
      unit_square_cell_total[OF assms] a c
    by simp
qed

text \<open>
  The facts hold in single precision and in the exact environment; in both the run
  therefore returns the score 2.
\<close>

theorem unit_square_scenario_witness:
  "unit_square_facts f32_env \<and>
   calculateCellAcuteness f32_env unit_square_cell [0, 12] 6 = Some [2] \<and>
   total_acute f32_env unit_square_cell 0 4 6 = 8 \<and>
   countAcute f32_env [Vec3 1 0 0, Vec3 0 1 0, Vec3 1 1 0] = 2 \<and>
   unit_square_facts real_env \<and>
   calculateCellAcuteness real_env unit_square_cell [0, 12] 6 = Some [2] \<and>
   total_acute real_env unit_square_cell 0 4 6 = 8 \<and>
   countAcute real_env [Vec3 1 0 0, Vec3 0 1 0, Vec3 1 1 0] = 2"
  using unit_square_scenario[OF f32_env_facts] unit_square_scenario[OF real_env_facts]
    f32_env_facts real_env_facts
  by (simp del: countAcute.simps)

section \<open>The range of the scores\<close>

text \<open>
  Claim C9. Every score of a defined run of the full pass lies between 0 and
  \<open>K * (K - 1) div 2\<close>, hence is at most 15 for \<open>K = 6\<close>; and every vertex of a cell
  contributes at most \<open>m * (m - 1) div 2\<close> acute pairs, where \<open>m = min K (cellSize - 1)\<close>.
\<close>

theorem scores_bounded:
  assumes "calculateCellAcuteness E vertices cellIndices K = Some scores"
  shows "(\<forall>s\<in>set scores. 0 \<le> s \<and> s \<le> K * (K - 1) div 2) \<and>
         (K = 6 \<longrightarrow> (\<forall>s\<in>set scores. s \<le> 15)) \<and>
         (\<forall>i v c. i < length scores \<and> 0 \<le> v \<and>
             v < int_div (cellIndices ! (i + 1) - cellIndices ! i) 3 \<and>
             vertexAcute E vertices (cellIndices ! i)
               (int_div (cellIndices ! (i + 1) - cellIndices ! i) 3) K v = Some c \<longrightarrow>
             0 \<le> c \<and>
             c \<le> min K (int_div (cellIndices ! (i + 1) - cellIndices ! i) 3 - 1)
                   * (min K (int_div (cellIndices ! (i + 1) - cellIndices ! i) 3 - 1) - 1) div 2)"
proof -
  have b: "\<forall>s\<in>set scores. 0 \<le> s \<and> s \<le> K * (K - 1) div 2"
  proof
    fix s assume "s \<in> set scores"
    then obtain i where i: "i < length scores" "s = scores ! i"
      by (auto simp: in_set_conv_nth)
    have "cellAcuteness E vertices cellIndices K i = Some s"
      using calculateCellAcuteness_Some[OF assms] i by simp
    then show "0 \<le> s \<and> s \<le> K * (K - 1) div 2"
      by (rule cellAcuteness_bounded)
  qed
  have six: "K = 6 \<longrightarrow> (\<forall>s\<in>set scores. s \<le> 15)"
    using b by auto
  have v: "\<forall>i v c. i < length scores \<and> 0 \<le> v \<and>
             v < int_div (cellIndices ! (i + 1) - cellIndices ! i) 3 \<and>
             vertexAcute E vertices (cellIndices ! i)
               (int_div (cellIndices ! (i + 1) - cellIndices ! i) 3) K v = Some c \<longrightarrow>
             0 \<le> c \<and>
             c \<le> min K (int_div (cellIndices ! (i + 1) - cellIndices ! i) 3 - 1)
                   * (min K (int_div (cellIndices ! (i + 1) - cellIndices ! i) 3 - 1) - 1) div 2"
  proof (intro allI impI)
    fix i v c
    let ?n = "int_div (cellIndices ! (i + 1) - cellIndices ! i) 3"
    assume a: "i < length scores \<and> 0 \<le> v \<and> v < ?n \<and>
               vertexAcute E vertices (cellIndices ! i) ?n K v = Some c"
    then have va: "vertexAcute E vertices (cellIndices ! i) ?n K v = Some c"
      and v0: "0 \<le> v" and vn: "v < ?n"
      by simp_all
    note r = vertexAcute_Some[OF va v0 vn]
    show "0 \<le> c \<and> c \<le> min K (?n - 1) * (min K (?n - 1) - 1) div 2"
      using r(1) acute_pair_count_le[OF v0 vn r(2), of E vertices "cellIndices ! i"]
        acute_pair_count_nonneg[of E vertices "cellIndices ! i" ?n K v]
      by simp
  qed
  show ?thesis
    using b six v by blast
qed

text \<open>The unit square with \<open>K = 6\<close>: the score 2, and 2 pairs at the first vertex.\<close>

theorem scores_bounded_witness:
  "calculateCellAcuteness real_env unit_square [0, 12] 6 = Some [2] \<and>
   (0 :: int) \<le> 2 \<and> (2 :: int) \<le> 6 * (6 - 1) div 2 \<and> (2 :: int) \<le> 15 \<and>
   vertexAcute real_env unit_square 0 4 6 0 = Some 2 \<and>
   (2 :: int) \<le> min 6 (4 - 1) * (min 6 (4 - 1) - 1) div 2"
proof -
  have "\<forall>s\<in>set [2 :: int]. 0 \<le> s \<and> s \<le> 6 * (6 - 1) div 2"
    using scores_bounded[OF unit_square_full_pass] by blast
  then show ?thesis
    using unit_square_full_pass unit_square_vertexAcute(1) by simp
qed

end
